theory Spec2Isabelle
  imports Main "HOL-Library.Word"
begin

section \<open>The wire data model (clipper\_bridge.h)\<close>

text \<open>
  The bridge exchanges path sets with its caller through three plain C structs.
  A C \<open>int\<close> is a 32-bit two's complement word (read with \<open>sint\<close>), an
  \<open>int64_t\<close> a 64-bit word, a \<open>double\<close> its 64-bit pattern (the bridge only
  forwards doubles to the engine). A pointer is an optional address: \<open>None\<close> is
  the null pointer. The fields \<open>len\<close>, \<open>pts\<close>, \<open>items\<close>, \<open>x\<close> and \<open>y\<close> carry
  the name of their struct here, since two structs have a \<open>len\<close>.
\<close>

type_synonym addr = nat
type_synonym cint = "32 word"
type_synonym int64 = "64 word"
type_synonym double = "64 word"

record cpt64 =
  pt_x :: int64
  pt_y :: int64

record cpath64 =
  path_len :: cint
  path_pts :: "addr option"

record cpaths64 =
  paths_len :: cint
  paths_items :: "addr option"

text \<open>
  The enumerators the header declares, each with the integer it stands for. A C enum
  crosses the boundary as an integer, so the conversion functions below take any
  \<open>int\<close>, not only the declared ones.
\<close>

datatype c_cliptype = C_CLIP_INTERSECTION | C_CLIP_UNION | C_CLIP_DIFFERENCE | C_CLIP_XOR

fun cliptype_value :: "c_cliptype \<Rightarrow> int" where
  "cliptype_value C_CLIP_INTERSECTION = 0"
| "cliptype_value C_CLIP_UNION = 1"
| "cliptype_value C_CLIP_DIFFERENCE = 2"
| "cliptype_value C_CLIP_XOR = 3"

datatype c_fillrule = C_FILL_EVENODD | C_FILL_NONZERO | C_FILL_POSITIVE | C_FILL_NEGATIVE

fun fillrule_value :: "c_fillrule \<Rightarrow> int" where
  "fillrule_value C_FILL_EVENODD = 0"
| "fillrule_value C_FILL_NONZERO = 1"
| "fillrule_value C_FILL_POSITIVE = 2"
| "fillrule_value C_FILL_NEGATIVE = 3"

datatype c_jointype = C_JOIN_SQUARE | C_JOIN_ROUND | C_JOIN_MITER

fun jointype_value :: "c_jointype \<Rightarrow> int" where
  "jointype_value C_JOIN_SQUARE = 0"
| "jointype_value C_JOIN_ROUND = 1"
| "jointype_value C_JOIN_MITER = 2"

datatype c_endtype = C_END_BUTT | C_END_SQUARE | C_END_ROUND | C_END_JOINED

fun endtype_value :: "c_endtype \<Rightarrow> int" where
  "endtype_value C_END_BUTT = 0"
| "endtype_value C_END_SQUARE = 1"
| "endtype_value C_END_ROUND = 2"
| "endtype_value C_END_JOINED = 3"

text \<open>
  \<open>toJT\<close> and \<open>toET\<close> also name \<open>C_JOIN_BEVEL\<close> and \<open>C_END_POLYGON\<close>, which the
  header does not declare. Their values are therefore parameters of the model.
\<close>

record undeclared_enumerators =
  C_JOIN_BEVEL :: int
  C_END_POLYGON :: int

section \<open>The engine's types\<close>

text \<open>
  The geometry engine (Clipper2) is an external collaborator. Its value types are
  modelled as far as the bridge uses them: a \<open>Paths64\<close> is a vector of vectors of
  points, here a list of lists. The storage of these vectors is not part of the
  store below, so building one never fails in the model; what throws is an
  operation of the engine.
\<close>

datatype Point64 = Point64 int64 int64

type_synonym Path64 = "Point64 list"
type_synonym Paths64 = "Path64 list"

datatype ClipType = CT_Intersection | CT_Union | CT_Difference | CT_Xor
datatype FillRule = FR_EvenOdd | FR_NonZero | FR_Positive | FR_Negative
datatype JoinType = JT_Square | JT_Bevel | JT_Round | JT_Miter
datatype EndType = ET_Polygon | ET_Joined | ET_Butt | ET_Square | ET_Round

record Rect64 =
  rect_left :: int64
  rect_top :: int64
  rect_right :: int64
  rect_bottom :: int64

datatype cpp_exception = Clipper2Exception | Bad_alloc

section \<open>Memory\<close>

text \<open>
  The store has one region per kind of object the bridge touches: the \<open>cpaths64\<close>
  structs the caller owns, the \<open>cpath64[]\<close> arrays and the \<open>cpt64[]\<close> arrays.
  \<open>new_plan\<close> resolves the allocator's choices: each request of
  \<open>operator new[](size, std::nothrow)\<close> takes the next entry, \<open>None\<close> for a
  failed allocation, \<open>Some a\<close> for the address handed out. A request also fails
  when the plan is exhausted or proposes an address that is in use, so the allocator
  never returns live memory. \<open>junk\<close> is what a freshly allocated \<open>cpath64\<close> cell
  holds before it is written.
\<close>

record heap =
  structs :: "addr \<Rightarrow> cpaths64 option"
  path_arrays :: "addr \<Rightarrow> cpath64 list option"
  pt_arrays :: "addr \<Rightarrow> cpt64 list option"
  new_plan :: "addr option list"
  junk :: cpath64

text \<open>
  A computation runs on a store and either returns a value with the new store,
  throws a C++ exception (the store as it is at the throw), or has undefined
  behaviour (a read or write through a null, dangling or out-of-range pointer).
\<close>

datatype 'a outcome = Value 'a heap | Raise cpp_exception heap | Undefined

type_synonym 'a comp = "heap \<Rightarrow> 'a outcome"

definition ret :: "'a \<Rightarrow> 'a comp" where
  "ret v h = Value v h"

definition cbind :: "'a comp \<Rightarrow> ('a \<Rightarrow> 'b comp) \<Rightarrow> 'b comp" where
  "cbind m f h = (case m h of Value v h' \<Rightarrow> f v h' | Raise e h' \<Rightarrow> Raise e h' | Undefined \<Rightarrow> Undefined)"

definition engine_call :: "cpp_exception + 'a \<Rightarrow> 'a comp" where
  "engine_call r h = (case r of Inl e \<Rightarrow> Raise e h | Inr v \<Rightarrow> Value v h)"

text \<open>\<open>try { body } catch (...) { return code; }\<close>\<close>

definition try_catch_all :: "int comp \<Rightarrow> int \<Rightarrow> int comp" where
  "try_catch_all body code h = (case body h of Raise e h' \<Rightarrow> Value code h' | r \<Rightarrow> r)"

definition is_free :: "heap \<Rightarrow> addr \<Rightarrow> bool" where
  "is_free h a \<longleftrightarrow> structs h a = None \<and> path_arrays h a = None \<and> pt_arrays h a = None"

text \<open>\<open>operator new[](size, std::nothrow)\<close>: the address, or null.\<close>

definition new_nothrow :: "heap \<Rightarrow> addr option \<times> heap" where
  "new_nothrow h =
     (case new_plan h of
        [] \<Rightarrow> (None, h)
      | r # plan \<Rightarrow>
          (case r of
             None \<Rightarrow> (None, h\<lparr>new_plan := plan\<rparr>)
           | Some a \<Rightarrow> if is_free h a then (Some a, h\<lparr>new_plan := plan\<rparr>)
                       else (None, h\<lparr>new_plan := plan\<rparr>)))"

section \<open>The converter\<close>

text \<open>
  \<open>toPaths64\<close>, inner loop: a path is copied only when its length is positive and
  its point buffer is not null; \<open>cpath.pts[j]\<close> is read for every \<open>j < cpath.len\<close>.
\<close>

definition to_Point64 :: "cpt64 \<Rightarrow> Point64" where
  "to_Point64 c = Point64 (pt_x c) (pt_y c)"

definition toPath64 :: "heap \<Rightarrow> cpath64 \<Rightarrow> Path64 option" where
  "toPath64 h cpath =
     (if 0 < sint (path_len cpath) then
        (case path_pts cpath of
           None \<Rightarrow> Some []
         | Some pts \<Rightarrow>
             (case pt_arrays h pts of
                None \<Rightarrow> None
              | Some buf \<Rightarrow>
                  if nat (sint (path_len cpath)) \<le> length buf
                  then Some (map to_Point64 (take (nat (sint (path_len cpath))) buf))
                  else None))
      else Some [])"

text \<open>The outer loop over \<open>cp->items[i]\<close>, \<open>i < cp->len\<close>; \<open>None\<close> is a bad read.\<close>

fun toPaths64_loop :: "heap \<Rightarrow> cpath64 list \<Rightarrow> Paths64 option" where
  "toPaths64_loop h [] = Some []"
| "toPaths64_loop h (cpath # rest) =
     (case toPath64 h cpath of
        None \<Rightarrow> None
      | Some p \<Rightarrow> (case toPaths64_loop h rest of None \<Rightarrow> None | Some out \<Rightarrow> Some (p # out)))"

definition toPaths64 :: "addr option \<Rightarrow> Paths64 comp" where
  "toPaths64 cp h =
     (case cp of
        None \<Rightarrow> Value [] h
      | Some a \<Rightarrow>
          (case structs h a of
             None \<Rightarrow> Undefined
           | Some s \<Rightarrow>
               if sint (paths_len s) \<le> 0 then Value [] h
               else (case paths_items s of
                       None \<Rightarrow> Undefined
                     | Some items \<Rightarrow>
                         (case path_arrays h items of
                            None \<Rightarrow> Undefined
                          | Some cells \<Rightarrow>
                              if nat (sint (paths_len s)) \<le> length cells
                              then (case toPaths64_loop h (take (nat (sint (paths_len s))) cells) of
                                      None \<Rightarrow> Undefined
                                    | Some out \<Rightarrow> Value out h)
                              else Undefined))))"

text \<open>
  \<open>fromPaths64\<close>. \<open>(int)src.size()\<close> keeps the low 32 bits of the size. The loop
  visits \<open>src[i]\<close> for \<open>i < dst->len\<close>, here the first \<open>dst->len\<close> paths of
  \<open>src\<close>; for each it writes \<open>dp.len\<close>, then either allocates and fills
  \<open>dp.pts\<close> or sets it to null. A failed allocation leaves null in \<open>dp.pts\<close>
  and returns at once, with what was written so far.
\<close>

definition to_cpt64 :: "Point64 \<Rightarrow> cpt64" where
  "to_cpt64 p = (case p of Point64 px py \<Rightarrow> \<lparr>pt_x = px, pt_y = py\<rparr>)"

definition set_len :: "addr \<Rightarrow> nat \<Rightarrow> cint \<Rightarrow> heap \<Rightarrow> heap" where
  "set_len items i n h =
     h\<lparr>path_arrays := (path_arrays h)
        (items := map_option (\<lambda>cells. cells[i := (cells ! i)\<lparr>path_len := n\<rparr>]) (path_arrays h items))\<rparr>"

definition set_pts :: "addr \<Rightarrow> nat \<Rightarrow> addr option \<Rightarrow> heap \<Rightarrow> heap" where
  "set_pts items i p h =
     h\<lparr>path_arrays := (path_arrays h)
        (items := map_option (\<lambda>cells. cells[i := (cells ! i)\<lparr>path_pts := p\<rparr>]) (path_arrays h items))\<rparr>"

fun fromPaths64_loop :: "addr \<Rightarrow> nat \<Rightarrow> Paths64 \<Rightarrow> heap \<Rightarrow> bool \<times> heap" where
  "fromPaths64_loop items i [] h = (True, h)"
| "fromPaths64_loop items i (sp # rest) h =
     (if (word_of_nat (length sp) :: cint) \<noteq> 0 then
        (case new_nothrow (set_len items i (word_of_nat (length sp)) h) of
           (None, h') \<Rightarrow> (False, set_pts items i None h')
         | (Some pts, h') \<Rightarrow>
             fromPaths64_loop items (Suc i) rest
               (set_pts items i (Some pts)
                  (h'\<lparr>pt_arrays := (pt_arrays h')
                       (pts \<mapsto> map to_cpt64 (take (nat (sint (word_of_nat (length sp) :: cint))) sp))\<rparr>)))
      else fromPaths64_loop items (Suc i) rest
             (set_pts items i None (set_len items i (word_of_nat (length sp)) h)))"

definition fromPaths64 :: "Paths64 \<Rightarrow> addr option \<Rightarrow> bool comp" where
  "fromPaths64 src dst h =
     (case dst of
        None \<Rightarrow> Value False h
      | Some d \<Rightarrow>
          (case structs h d of
             None \<Rightarrow> Undefined
           | Some _ \<Rightarrow>
               (case new_nothrow h of
                  (None, h') \<Rightarrow>
                    Value ((word_of_nat (length src) :: cint) = 0)
                      (h'\<lparr>structs := (structs h')
                           (d \<mapsto> \<lparr>paths_len = word_of_nat (length src), paths_items = None\<rparr>)\<rparr>)
                | (Some items, h') \<Rightarrow>
                    (case fromPaths64_loop items 0
                            (take (nat (sint (word_of_nat (length src) :: cint))) src)
                            (h'\<lparr>structs := (structs h')
                                  (d \<mapsto> \<lparr>paths_len = word_of_nat (length src), paths_items = Some items\<rparr>),
                                path_arrays := (path_arrays h')
                                  (items \<mapsto> replicate (nat (sint (word_of_nat (length src) :: cint))) (junk h'))\<rparr>) of
                       (ok, h'') \<Rightarrow> Value ok h''))))"

section \<open>The ownership manager\<close>

text \<open>
  \<open>operator delete[]\<close> of a buffer that is not live is undefined. The loop of
  \<open>clipper2c_free_paths\<close> deletes the non-null \<open>pts\<close> of every cell below
  \<open>p->len\<close>; then the array goes and the handle is reset.
\<close>

definition delete_pts :: "addr \<Rightarrow> heap \<Rightarrow> heap option" where
  "delete_pts a h =
     (if pt_arrays h a = None then None
      else Some (h\<lparr>pt_arrays := (pt_arrays h)(a := None)\<rparr>))"

fun free_paths_loop :: "cpath64 list \<Rightarrow> heap \<Rightarrow> heap option" where
  "free_paths_loop [] h = Some h"
| "free_paths_loop (c # rest) h =
     (case path_pts c of
        None \<Rightarrow> free_paths_loop rest h
      | Some pts \<Rightarrow>
          (case delete_pts pts h of None \<Rightarrow> None | Some h' \<Rightarrow> free_paths_loop rest h'))"

definition clipper2c_free_paths :: "addr option \<Rightarrow> unit comp" where
  "clipper2c_free_paths p h =
     (case p of
        None \<Rightarrow> Value () h
      | Some a \<Rightarrow>
          (case structs h a of
             None \<Rightarrow> Undefined
           | Some s \<Rightarrow>
               (case paths_items s of
                  None \<Rightarrow> Value () h
                | Some items \<Rightarrow>
                    (case path_arrays h items of
                       None \<Rightarrow> Undefined
                     | Some cells \<Rightarrow>
                         if nat (sint (paths_len s)) \<le> length cells then
                           (case free_paths_loop (take (nat (sint (paths_len s))) cells) h of
                              None \<Rightarrow> Undefined
                            | Some h' \<Rightarrow>
                                Value ()
                                  (h'\<lparr>path_arrays := (path_arrays h')(items := None),
                                      structs := (structs h')
                                        (a \<mapsto> \<lparr>paths_len = 0, paths_items = None\<rparr>)\<rparr>))
                         else Undefined))))"

section \<open>The dispatcher\<close>

text \<open>
  The four \<open>switch\<close> conversions, cases in the source's order. Case labels of one
  \<open>switch\<close> are distinct in C++, so the order matters only for the model's
  parameters \<open>C_JOIN_BEVEL\<close> and \<open>C_END_POLYGON\<close>.
\<close>

definition toFR :: "int \<Rightarrow> FillRule" where
  "toFR fr =
     (if fr = fillrule_value C_FILL_NONZERO then FR_NonZero
      else if fr = fillrule_value C_FILL_POSITIVE then FR_Positive
      else if fr = fillrule_value C_FILL_NEGATIVE then FR_Negative
      else FR_EvenOdd)"

definition toCT :: "int \<Rightarrow> ClipType" where
  "toCT ct =
     (if ct = cliptype_value C_CLIP_UNION then CT_Union
      else if ct = cliptype_value C_CLIP_DIFFERENCE then CT_Difference
      else if ct = cliptype_value C_CLIP_XOR then CT_Xor
      else CT_Intersection)"

definition toJT :: "undeclared_enumerators \<Rightarrow> int \<Rightarrow> JoinType" where
  "toJT u jt =
     (if jt = jointype_value C_JOIN_SQUARE then JT_Square
      else if jt = C_JOIN_BEVEL u then JT_Bevel
      else if jt = jointype_value C_JOIN_ROUND then JT_Round
      else if jt = jointype_value C_JOIN_MITER then JT_Miter
      else JT_Square)"

definition toET :: "undeclared_enumerators \<Rightarrow> int \<Rightarrow> EndType" where
  "toET u et =
     (if et = C_END_POLYGON u then ET_Polygon
      else if et = endtype_value C_END_JOINED then ET_Joined
      else if et = endtype_value C_END_BUTT then ET_Butt
      else if et = endtype_value C_END_SQUARE then ET_Square
      else if et = endtype_value C_END_ROUND then ET_Round
      else ET_Polygon)"

text \<open>
  The engine is a parameter: the operations of Clipper2 the bridge calls, each of
  which may throw. \<open>'c\<close> is the state of a \<open>Clipper64\<close> object, \<open>Clipper64_new\<close>
  the freshly constructed one; \<open>Execute\<close> yields the closed and the open solution.
\<close>

record 'c engine =
  Clipper64_new :: 'c
  AddSubject :: "Paths64 \<Rightarrow> 'c \<Rightarrow> cpp_exception + 'c"
  AddOpenSubject :: "Paths64 \<Rightarrow> 'c \<Rightarrow> cpp_exception + 'c"
  AddClip :: "Paths64 \<Rightarrow> 'c \<Rightarrow> cpp_exception + 'c"
  Execute :: "ClipType \<Rightarrow> FillRule \<Rightarrow> 'c \<Rightarrow> cpp_exception + Paths64 \<times> Paths64"
  BooleanOp :: "ClipType \<Rightarrow> FillRule \<Rightarrow> Paths64 \<Rightarrow> Paths64 \<Rightarrow> cpp_exception + Paths64"
  InflatePaths ::
    "Paths64 \<Rightarrow> double \<Rightarrow> JoinType \<Rightarrow> EndType \<Rightarrow> double \<Rightarrow> double \<Rightarrow> cpp_exception + Paths64"
  RectClip :: "Rect64 \<Rightarrow> Paths64 \<Rightarrow> cpp_exception + Paths64"

text \<open>
  \<open>clipper2c_boolean64\<close>, lines 126 to 147: the choice of the evaluation and the two
  solutions it leaves in \<open>sol\<close> and \<open>solOpen\<close>.
\<close>

definition boolean64_solve ::
  "'c engine \<Rightarrow> int \<Rightarrow> int \<Rightarrow> Paths64 \<Rightarrow> Paths64 \<Rightarrow> Paths64 \<Rightarrow> (Paths64 \<times> Paths64) comp" where
  "boolean64_solve eng ct fr subj subjOp clip =
     (if subjOp \<noteq> [] \<or> (subj \<noteq> [] \<and> clip \<noteq> []) then
        cbind (if subj \<noteq> [] then engine_call (AddSubject eng subj (Clipper64_new eng))
               else ret (Clipper64_new eng)) (\<lambda>c1.
        cbind (if subjOp \<noteq> [] then engine_call (AddOpenSubject eng subjOp c1) else ret c1) (\<lambda>c2.
        cbind (if clip \<noteq> [] then engine_call (AddClip eng clip c2) else ret c2) (\<lambda>c3.
        engine_call (Execute eng (toCT ct) (toFR fr) c3))))
      else if subj \<noteq> [] \<and> clip = [] then
        cbind (engine_call (BooleanOp eng (toCT ct) (toFR fr) subj clip)) (\<lambda>sol. ret (sol, []))
      else ret ([], []))"

text \<open>
  Lines 149 to 151: each solution is exported only through a non-null pointer; a
  failed export of the closed solution returns 2, of the open solution 3.
\<close>

definition boolean64_export :: "addr option \<Rightarrow> addr option \<Rightarrow> Paths64 \<times> Paths64 \<Rightarrow> int comp" where
  "boolean64_export out_closed out_open sols =
     (case sols of (sol, solOpen) \<Rightarrow>
        cbind (if out_closed \<noteq> None then fromPaths64 sol out_closed else ret True) (\<lambda>closed_ok.
        if \<not> closed_ok then ret 2
        else
        cbind (if out_open \<noteq> None then fromPaths64 solOpen out_open else ret True) (\<lambda>open_ok.
        if \<not> open_ok then ret 3 else ret 0)))"

definition clipper2c_boolean64 ::
  "'c engine \<Rightarrow> int \<Rightarrow> int \<Rightarrow> addr option \<Rightarrow> addr option \<Rightarrow> addr option \<Rightarrow>
   addr option \<Rightarrow> addr option \<Rightarrow> int comp" where
  "clipper2c_boolean64 eng ct fr subjects subjects_open clips out_closed out_open =
     try_catch_all
       (cbind (toPaths64 subjects) (\<lambda>subj.
        cbind (toPaths64 subjects_open) (\<lambda>subjOp.
        cbind (toPaths64 clips) (\<lambda>clip.
        cbind (boolean64_solve eng ct fr subj subjOp clip)
              (boolean64_export out_closed out_open))))) 1"

definition clipper2c_offset64 ::
  "'c engine \<Rightarrow> undeclared_enumerators \<Rightarrow> addr option \<Rightarrow> double \<Rightarrow> int \<Rightarrow> int \<Rightarrow>
   double \<Rightarrow> double \<Rightarrow> addr option \<Rightarrow> int comp" where
  "clipper2c_offset64 eng u paths delta jt et miter_limit arc_tolerance out_paths =
     try_catch_all
       (cbind (toPaths64 paths) (\<lambda>inp.
        cbind (engine_call (InflatePaths eng inp delta (toJT u jt) (toET u et) miter_limit arc_tolerance)) (\<lambda>out.
        cbind (fromPaths64 out out_paths) (\<lambda>ok.
        if \<not> ok then ret 2 else ret 0)))) 1"

definition clipper2c_rectclip64 ::
  "'c engine \<Rightarrow> int64 \<Rightarrow> int64 \<Rightarrow> int64 \<Rightarrow> int64 \<Rightarrow> addr option \<Rightarrow> addr option \<Rightarrow> int comp" where
  "clipper2c_rectclip64 eng left top' right bottom in_paths out_paths =
     try_catch_all
       (cbind (toPaths64 in_paths) (\<lambda>inp.
        cbind (engine_call (RectClip eng
                 \<lparr>rect_left = left, rect_top = top', rect_right = right, rect_bottom = bottom\<rparr> inp)) (\<lambda>out.
        cbind (fromPaths64 out out_paths) (\<lambda>ok.
        if \<not> ok then ret 2 else ret 0)))) 1"

section \<open>Notions of the specification\<close>

text \<open>
  The strategy selection of boolean combine, in the specification's words: the full
  evaluation registers the closed subjects, the open subjects and the clip paths
  (each only if there are any) and executes one combined evaluation; the reduced
  evaluation runs the operation over the closed subjects against an empty clip set
  and has no open solution; otherwise no engine call is made.
\<close>

datatype strategy = Full_evaluation | Reduced_evaluation | No_engine_call

definition spec_strategy :: "Paths64 \<Rightarrow> Paths64 \<Rightarrow> Paths64 \<Rightarrow> strategy" where
  "spec_strategy closed_subjects open_subjects clip_paths =
     (if open_subjects \<noteq> [] \<or> (closed_subjects \<noteq> [] \<and> clip_paths \<noteq> []) then Full_evaluation
      else if closed_subjects \<noteq> [] \<and> clip_paths = [] then Reduced_evaluation
      else No_engine_call)"

definition register_if_any :: "(Paths64 \<Rightarrow> 'c \<Rightarrow> cpp_exception + 'c) \<Rightarrow> Paths64 \<Rightarrow> 'c \<Rightarrow> 'c comp" where
  "register_if_any add ps c = (if ps = [] then ret c else engine_call (add ps c))"

definition spec_booleanCombine ::
  "'c engine \<Rightarrow> ClipType \<Rightarrow> FillRule \<Rightarrow> Paths64 \<Rightarrow> Paths64 \<Rightarrow> Paths64 \<Rightarrow> (Paths64 \<times> Paths64) comp" where
  "spec_booleanCombine eng ct fr closed_subjects open_subjects clip_paths =
     (case spec_strategy closed_subjects open_subjects clip_paths of
        Full_evaluation \<Rightarrow>
          cbind (register_if_any (AddSubject eng) closed_subjects (Clipper64_new eng)) (\<lambda>c1.
          cbind (register_if_any (AddOpenSubject eng) open_subjects c1) (\<lambda>c2.
          cbind (register_if_any (AddClip eng) clip_paths c2) (\<lambda>c3.
          engine_call (Execute eng ct fr c3))))
      | Reduced_evaluation \<Rightarrow>
          cbind (engine_call (BooleanOp eng ct fr closed_subjects [])) (\<lambda>closed. ret (closed, []))
      | No_engine_call \<Rightarrow> ret ([], []))"

text \<open>
  The engine's clip type and fill rule for each public selector, as the
  specification lists them: \<open>ClipType { Intersection=0, Union=1, Difference=2, Xor=3 }\<close>
  and \<open>FillRule { EvenOdd=0, NonZero=1, Positive=2, Negative=3 }\<close>.
\<close>

fun spec_cliptype :: "c_cliptype \<Rightarrow> ClipType" where
  "spec_cliptype C_CLIP_INTERSECTION = CT_Intersection"
| "spec_cliptype C_CLIP_UNION = CT_Union"
| "spec_cliptype C_CLIP_DIFFERENCE = CT_Difference"
| "spec_cliptype C_CLIP_XOR = CT_Xor"

fun spec_fillrule :: "c_fillrule \<Rightarrow> FillRule" where
  "spec_fillrule C_FILL_EVENODD = FR_EvenOdd"
| "spec_fillrule C_FILL_NONZERO = FR_NonZero"
| "spec_fillrule C_FILL_POSITIVE = FR_Positive"
| "spec_fillrule C_FILL_NEGATIVE = FR_Negative"

text \<open>The empty state of a handle.\<close>

definition empty_handle :: cpaths64 where
  "empty_handle = \<lparr>paths_len = 0, paths_items = None\<rparr>"

text \<open>
  A valid wire path set (the data model's invariants): lengths are not negative, a
  path set of length \<open>N > 0\<close> has exactly \<open>N\<close> path entries, and a path of
  length \<open>L > 0\<close> has a point buffer of exactly \<open>L\<close> points.
\<close>

definition valid_path :: "heap \<Rightarrow> cpath64 \<Rightarrow> bool" where
  "valid_path h c \<longleftrightarrow>
     0 \<le> sint (path_len c) \<and>
     (if 0 < sint (path_len c) then
        (case path_pts c of
           None \<Rightarrow> False
         | Some b \<Rightarrow>
             (case pt_arrays h b of
                None \<Rightarrow> False
              | Some buf \<Rightarrow> length buf = nat (sint (path_len c))))
      else True)"

definition valid_pathset :: "heap \<Rightarrow> addr \<Rightarrow> bool" where
  "valid_pathset h p \<longleftrightarrow>
     (case structs h p of
        None \<Rightarrow> False
      | Some s \<Rightarrow>
          0 \<le> sint (paths_len s) \<and>
          (if 0 < sint (paths_len s) then
             (case paths_items s of
                None \<Rightarrow> False
              | Some a \<Rightarrow>
                  (case path_arrays h a of
                     None \<Rightarrow> False
                   | Some cells \<Rightarrow>
                       length cells = nat (sint (paths_len s)) \<and> list_all (valid_path h) cells))
           else True))"

text \<open>
  What a wire path set holds: its \<open>len\<close>, and for every path its \<open>len\<close> and its
  points in order. Pointers are not part of it.
\<close>

definition path_view :: "heap \<Rightarrow> cpath64 \<Rightarrow> cint \<times> cpt64 list" where
  "path_view h c =
     (path_len c,
      if 0 < sint (path_len c) then
        (case path_pts c of
           None \<Rightarrow> []
         | Some b \<Rightarrow>
             (case pt_arrays h b of
                None \<Rightarrow> []
              | Some buf \<Rightarrow> take (nat (sint (path_len c))) buf))
      else [])"

definition pathset_view :: "heap \<Rightarrow> addr \<Rightarrow> (cint \<times> (cint \<times> cpt64 list) list) option" where
  "pathset_view h p =
     (case structs h p of
        None \<Rightarrow> None
      | Some s \<Rightarrow>
          Some (paths_len s,
                if 0 < sint (paths_len s) then
                  (case paths_items s of
                     None \<Rightarrow> []
                   | Some a \<Rightarrow>
                       (case path_arrays h a of
                          None \<Rightarrow> []
                        | Some cells \<Rightarrow> map (path_view h) (take (nat (sint (paths_len s))) cells)))
                else []))"

text \<open>
  The points alone, path by path: the view without the \<open>len\<close> fields. And the
  part of validity that concerns points: a positive length comes with a buffer of
  exactly that many points (a path array of exactly that many entries), whatever
  the sign of the other lengths.
\<close>

definition pathset_points :: "heap \<Rightarrow> addr \<Rightarrow> cpt64 list list option" where
  "pathset_points h p = map_option (\<lambda>v. map snd (snd v)) (pathset_view h p)"

definition exact_path :: "heap \<Rightarrow> cpath64 \<Rightarrow> bool" where
  "exact_path h c \<longleftrightarrow>
     (if 0 < sint (path_len c) then
        (case path_pts c of
           None \<Rightarrow> False
         | Some b \<Rightarrow>
             (case pt_arrays h b of
                None \<Rightarrow> False
              | Some buf \<Rightarrow> length buf = nat (sint (path_len c))))
      else True)"

definition exact_pathset :: "heap \<Rightarrow> addr \<Rightarrow> bool" where
  "exact_pathset h p \<longleftrightarrow>
     (case structs h p of
        None \<Rightarrow> False
      | Some s \<Rightarrow>
          (if 0 < sint (paths_len s) then
             (case paths_items s of
                None \<Rightarrow> False
              | Some a \<Rightarrow>
                  (case path_arrays h a of
                     None \<Rightarrow> False
                   | Some cells \<Rightarrow>
                       length cells = nat (sint (paths_len s)) \<and> list_all (exact_path h) cells))
           else True))"

text \<open>
  A readable wire path set: what \<open>toPaths64\<close> needs of the memory behind a non-null
  pointer. A null point buffer is readable whatever the length says.
\<close>

definition readable_path :: "heap \<Rightarrow> cpath64 \<Rightarrow> bool" where
  "readable_path h c \<longleftrightarrow>
     (if 0 < sint (path_len c) then
        (case path_pts c of
           None \<Rightarrow> True
         | Some b \<Rightarrow>
             (case pt_arrays h b of
                None \<Rightarrow> False
              | Some buf \<Rightarrow> nat (sint (path_len c)) \<le> length buf))
      else True)"

definition readable_pathset :: "heap \<Rightarrow> addr \<Rightarrow> bool" where
  "readable_pathset h p \<longleftrightarrow>
     (case structs h p of
        None \<Rightarrow> False
      | Some s \<Rightarrow>
          (if 0 < sint (paths_len s) then
             (case paths_items s of
                None \<Rightarrow> False
              | Some a \<Rightarrow>
                  (case path_arrays h a of
                     None \<Rightarrow> False
                   | Some cells \<Rightarrow>
                       nat (sint (paths_len s)) \<le> length cells \<and>
                       list_all (readable_path h) (take (nat (sint (paths_len s))) cells)))
           else True))"





definition int_sized :: "Paths64 \<Rightarrow> bool" where
  "int_sized src \<longleftrightarrow> length src < 2 ^ 31 \<and> list_all (\<lambda>sp. length sp < 2 ^ 31) src"

text \<open>
  Two notions for the loops of the converter: the non-null point buffers of a run of
  cells, in order, and what the export of one path leaves in its cell.
\<close>

definition bufs :: "cpath64 list \<Rightarrow> addr list" where
  "bufs cs = List.map_filter path_pts cs"

definition stored :: "heap \<Rightarrow> cpath64 \<Rightarrow> Path64 \<Rightarrow> bool" where
  "stored h c sp \<longleftrightarrow>
     path_len c = word_of_nat (length sp) \<and>
     (if (word_of_nat (length sp) :: cint) = 0 then path_pts c = None
      else (case path_pts c of
              None \<Rightarrow> False
            | Some b \<Rightarrow>
                pt_arrays h b =
                  Some (map to_cpt64 (take (nat (sint (word_of_nat (length sp) :: cint))) sp))))"

section \<open>Sample data\<close>

text \<open>
  Two stand-in engines, used only to run the bridge on concrete inputs: one hands its
  inputs back, one throws from every operation.
\<close>

definition echo_engine :: "(Paths64 \<times> Paths64) engine" where
  "echo_engine =
     \<lparr>Clipper64_new = ([], []),
      AddSubject = (\<lambda>ps c. Inr (fst c @ ps, snd c)),
      AddOpenSubject = (\<lambda>ps c. Inr (fst c, snd c @ ps)),
      AddClip = (\<lambda>ps c. Inr c),
      Execute = (\<lambda>ct fr c. Inr c),
      BooleanOp = (\<lambda>ct fr subj clip. Inr subj),
      InflatePaths = (\<lambda>ps delta jt et ml at. Inr ps),
      RectClip = (\<lambda>r ps. Inr ps)\<rparr>"

text \<open>
  A third stand-in engine, whose answers show what it was asked: the first path of a
  closed solution holds one point with the numbers of the clip type and the fill
  rule, the registered closed subjects and clip paths follow; the open solution is
  the registered open subjects.
\<close>

fun clip_code :: "ClipType \<Rightarrow> int64" where
  "clip_code CT_Intersection = 0"
| "clip_code CT_Union = 1"
| "clip_code CT_Difference = 2"
| "clip_code CT_Xor = 3"

fun fill_code :: "FillRule \<Rightarrow> int64" where
  "fill_code FR_EvenOdd = 0"
| "fill_code FR_NonZero = 1"
| "fill_code FR_Positive = 2"
| "fill_code FR_Negative = 3"

definition tagging_engine :: "(Paths64 \<times> Paths64) engine" where
  "tagging_engine =
     \<lparr>Clipper64_new = ([], []),
      AddSubject = (\<lambda>ps c. Inr (fst c @ ps, snd c)),
      AddOpenSubject = (\<lambda>ps c. Inr (fst c, snd c @ ps)),
      AddClip = (\<lambda>ps c. Inr (fst c @ ps, snd c)),
      Execute = (\<lambda>ct fr c. Inr ([Point64 (clip_code ct) (fill_code fr)] # fst c, snd c)),
      BooleanOp = (\<lambda>ct fr subj clip. Inr ([Point64 (clip_code ct) (fill_code fr)] # subj @ clip)),
      InflatePaths = (\<lambda>ps delta jt et ml at. Inr ps),
      RectClip = (\<lambda>r ps. Inr ps)\<rparr>"



definition failing_engine :: "unit engine" where
  "failing_engine =
     \<lparr>Clipper64_new = (),
      AddSubject = (\<lambda>ps c. Inl Clipper2Exception),
      AddOpenSubject = (\<lambda>ps c. Inl Clipper2Exception),
      AddClip = (\<lambda>ps c. Inl Clipper2Exception),
      Execute = (\<lambda>ct fr c. Inl Clipper2Exception),
      BooleanOp = (\<lambda>ct fr subj clip. Inl Clipper2Exception),
      InflatePaths = (\<lambda>ps delta jt et ml at. Inl Clipper2Exception),
      RectClip = (\<lambda>r ps. Inl Clipper2Exception)\<rparr>"

definition sample_enumerators :: undeclared_enumerators where
  "sample_enumerators = \<lparr>C_JOIN_BEVEL = 3, C_END_POLYGON = 4\<rparr>"

text \<open>
  A store with the square \<open>(0,0) (10,0) (10,10) (0,10)\<close> as a one-path set behind
  the struct at 0, two empty handles at 5 and 6 for results, and an allocator that
  hands out the addresses from 10 on.
\<close>

definition square :: "cpt64 list" where
  "square = [\<lparr>pt_x = 0, pt_y = 0\<rparr>, \<lparr>pt_x = 10, pt_y = 0\<rparr>,
             \<lparr>pt_x = 10, pt_y = 10\<rparr>, \<lparr>pt_x = 0, pt_y = 10\<rparr>]"

definition square_heap :: heap where
  "square_heap =
     \<lparr>structs = [0 \<mapsto> \<lparr>paths_len = 1, paths_items = Some 1\<rparr>, 5 \<mapsto> empty_handle, 6 \<mapsto> empty_handle],
      path_arrays = [1 \<mapsto> [\<lparr>path_len = 4, path_pts = Some 2\<rparr>]],
      pt_arrays = [2 \<mapsto> square],
      new_plan = [Some 10, Some 11, Some 12, Some 13],
      junk = \<lparr>path_len = 0, path_pts = None\<rparr>\<rparr>"

text \<open>The same store with an allocator that has no memory left.\<close>

definition oom_heap :: heap where
  "oom_heap = square_heap\<lparr>new_plan := []\<rparr>"

text \<open>A handle that announces one path and has a null path array.\<close>

definition null_items_heap :: heap where
  "null_items_heap = square_heap\<lparr>structs := [0 \<mapsto> \<lparr>paths_len = 1, paths_items = None\<rparr>]\<rparr>"

text \<open>The sample store, the square's path with a null point buffer.\<close>

definition null_pts_heap :: heap where
  "null_pts_heap =
     square_heap\<lparr>path_arrays := [1 \<mapsto> [\<lparr>path_len = 4, path_pts = None\<rparr>]]\<rparr>"

text \<open>
  What the export of an empty solution into the handle at 5 leaves: length 0 and a
  live array of no cells; and the store once that handle is released. And what an
  export of the square leaves there when the allocator has no memory: the length
  written, the path array null.
\<close>

definition zero_array_heap :: heap where
  "zero_array_heap =
     square_heap\<lparr>structs := (structs square_heap)(5 \<mapsto> \<lparr>paths_len = 0, paths_items = Some 10\<rparr>),
                 path_arrays := (path_arrays square_heap)(10 \<mapsto> []),
                 new_plan := [Some 11, Some 12, Some 13]\<rparr>"

definition released_heap :: heap where
  "released_heap = square_heap\<lparr>new_plan := [Some 11, Some 12, Some 13]\<rparr>"

definition failed_export_heap :: heap where
  "failed_export_heap =
     oom_heap\<lparr>structs := (structs oom_heap)(5 \<mapsto> \<lparr>paths_len = 1, paths_items = None\<rparr>)\<rparr>"

text \<open>The sample store with a negative length in the square's path.\<close>

definition negative_len_heap :: heap where
  "negative_len_heap =
     square_heap\<lparr>path_arrays := [1 \<mapsto> [\<lparr>path_len = - 1, path_pts = Some 2\<rparr>]]\<rparr>"



section \<open>Running the bridge on a concrete store\<close>


section \<open>Machine integers\<close>

lemma sint_of_nat_le: "nat (sint (word_of_nat n :: cint)) \<le> n"
proof -
  have "sint (word_of_nat n :: cint) = (int n + 2 ^ 31) mod 2 ^ 32 - 2 ^ 31"
    using int_word_sint [where 'a = 32, of "int n"] by simp
  moreover have "(int n + 2 ^ 31) mod 2 ^ 32 \<le> int n + 2 ^ 31"
    by (rule zmod_le_nonneg_dividend) simp
  ultimately show ?thesis by linarith
qed

lemma of_nat_sint: "0 \<le> sint (w :: cint) \<Longrightarrow> word_of_nat (nat (sint w)) = w"
proof -
  assume a: "0 \<le> sint w"
  have "(word_of_nat (nat (sint w)) :: cint) = word_of_int (int (nat (sint w)))"
    by simp
  also have "\<dots> = word_of_int (sint w)" using a by simp
  also have "\<dots> = w" by simp
  finally show ?thesis .
qed

section \<open>The allocator and the export loop\<close>

lemma new_nothrow_frame:
  assumes "new_nothrow h = (r, h')"
  shows "structs h' = structs h" "path_arrays h' = path_arrays h" "pt_arrays h' = pt_arrays h"
    "junk h' = junk h"
  using assms by (auto simp: new_nothrow_def split: list.splits option.splits if_splits)

lemma new_nothrow_fresh:
  assumes "new_nothrow h = (Some a, h')"
  shows "is_free h a"
  using assms by (auto simp: new_nothrow_def split: list.splits option.splits if_splits)

lemma set_len_frame [simp]:
  "structs (set_len A i n h) = structs h" "pt_arrays (set_len A i n h) = pt_arrays h"
  "junk (set_len A i n h) = junk h" "new_plan (set_len A i n h) = new_plan h"
  "a \<noteq> A \<Longrightarrow> path_arrays (set_len A i n h) a = path_arrays h a"
  "path_arrays (set_len A i n h) A = map_option (\<lambda>cells. cells[i := (cells ! i)\<lparr>path_len := n\<rparr>]) (path_arrays h A)"
  by (simp_all add: set_len_def)

lemma set_pts_frame [simp]:
  "structs (set_pts A i p h) = structs h" "pt_arrays (set_pts A i p h) = pt_arrays h"
  "junk (set_pts A i p h) = junk h" "new_plan (set_pts A i p h) = new_plan h"
  "a \<noteq> A \<Longrightarrow> path_arrays (set_pts A i p h) a = path_arrays h a"
  "path_arrays (set_pts A i p h) A = map_option (\<lambda>cells. cells[i := (cells ! i)\<lparr>path_pts := p\<rparr>]) (path_arrays h A)"
  by (simp_all add: set_pts_def)

lemma is_free_set_len [simp]: "is_free (set_len A i n h) a = is_free h a"
  by (cases "a = A") (auto simp: is_free_def)

lemma fromPaths64_loop_frame:
  "fromPaths64_loop A i rest h = (ok, h') \<Longrightarrow>
   structs h' = structs h \<and> junk h' = junk h \<and>
   (\<forall>a. a \<noteq> A \<longrightarrow> path_arrays h' a = path_arrays h a) \<and>
   (path_arrays h' A = None \<longleftrightarrow> path_arrays h A = None) \<and>
   pt_arrays h \<subseteq>\<^sub>m pt_arrays h'"
proof (induction rest arbitrary: i h)
  case Nil
  then show ?case by simp
next
  case (Cons sp rest)
  show ?case
  proof (cases "(word_of_nat (length sp) :: cint) = 0")
    case True
    with Cons.prems have
      "fromPaths64_loop A (Suc i) rest (set_pts A i None (set_len A i (word_of_nat (length sp)) h)) = (ok, h')"
      by simp
    from Cons.IH [OF this] show ?thesis by simp
  next
    case False
    obtain r h1 where n: "new_nothrow (set_len A i (word_of_nat (length sp)) h) = (r, h1)"
      by (cases "new_nothrow (set_len A i (word_of_nat (length sp)) h)")
    note fr = new_nothrow_frame [OF n]
    show ?thesis
    proof (cases r)
      case None
      with Cons.prems False n have "h' = set_pts A i None h1" by auto
      with fr show ?thesis by (simp add: set_pts_def)
    next
      case (Some b)
      let ?h2 = "set_pts A i (Some b)
                  (h1\<lparr>pt_arrays := (pt_arrays h1)
                       (b \<mapsto> map to_cpt64 (take (nat (sint (word_of_nat (length sp) :: cint))) sp))\<rparr>)"
      from Cons.prems False n Some have "fromPaths64_loop A (Suc i) rest ?h2 = (ok, h')" by simp
      note ih = Cons.IH [OF this]
      from new_nothrow_fresh n Some have "is_free h b" by fastforce
      then have "pt_arrays h b = None" by (simp add: is_free_def)
      then have "pt_arrays h \<subseteq>\<^sub>m pt_arrays ?h2"
        using fr by (auto simp: map_le_def set_pts_def)
      with ih have "pt_arrays h \<subseteq>\<^sub>m pt_arrays h'" by (blast intro: map_le_trans)
      with ih fr show ?thesis by (simp add: set_pts_def)
    qed
  qed
qed

lemma map_le_Some: "m \<subseteq>\<^sub>m m' \<Longrightarrow> m a = Some v \<Longrightarrow> m' a = Some v"
  by (metis domI map_le_def)

lemma cpath64_overwrite [simp]:
  "(c :: cpath64)\<lparr>path_len := n, path_pts := p\<rparr> = \<lparr>path_len = n, path_pts = p\<rparr>"
  by (cases c) simp

lemma bufs_simps [simp]:
  "bufs [] = []"
  "path_pts c = None \<Longrightarrow> bufs (c # cs) = bufs cs"
  "path_pts c = Some b \<Longrightarrow> bufs (c # cs) = b # bufs cs"
  by (simp_all add: bufs_def List.map_filter_simps)

lemma fromPaths64_loop_content:
  "fromPaths64_loop A i rest h = (True, h') \<Longrightarrow> path_arrays h A = Some cells \<Longrightarrow>
   i + length rest \<le> length cells \<Longrightarrow>
   \<exists>cs. length cs = length rest \<and>
        path_arrays h' A = Some (take i cells @ cs @ drop (i + length rest) cells) \<and>
        list_all2 (stored h') cs rest \<and> distinct (bufs cs) \<and>
        set (bufs cs) \<inter> dom (pt_arrays h) = {} \<and>
        dom (pt_arrays h') = dom (pt_arrays h) \<union> set (bufs cs)"
proof (induction rest arbitrary: i h cells)
  case Nil
  then show ?case by simp
next
  case (Cons sp rest)
  let ?m = "word_of_nat (length sp) :: cint"
  from Cons.prems have i: "i < length cells" by simp
  show ?case
  proof (cases "?m = 0")
    case True
    let ?c = "\<lparr>path_len = ?m, path_pts = None\<rparr>"
    let ?h2 = "set_pts A i None (set_len A i ?m h)"
    from Cons.prems True have run: "fromPaths64_loop A (Suc i) rest ?h2 = (True, h')" by simp
    have arr: "path_arrays ?h2 A = Some (cells[i := ?c])"
      using Cons.prems(2) i by simp
    have "Suc i + length rest \<le> length (cells[i := ?c])" using Cons.prems(3) by simp
    from Cons.IH [OF run arr this] obtain cs where cs:
      "length cs = length rest"
      "path_arrays h' A = Some (take (Suc i) (cells[i := ?c]) @ cs @ drop (Suc i + length rest) (cells[i := ?c]))"
      "list_all2 (stored h') cs rest" "distinct (bufs cs)"
      "set (bufs cs) \<inter> dom (pt_arrays ?h2) = {}"
      "dom (pt_arrays h') = dom (pt_arrays ?h2) \<union> set (bufs cs)"
      by blast
    have st: "stored h' ?c sp" using True by (simp add: stored_def)
    have tk: "take (Suc i) (cells[i := ?c]) = take i cells @ [?c]"
      using i by (simp add: take_Suc_conv_app_nth)
    show ?thesis
      apply (rule exI [of _ "?c # cs"])
      using cs st tk by simp
  next
    case False
    obtain r h1 where n: "new_nothrow (set_len A i ?m h) = (r, h1)"
      by (cases "new_nothrow (set_len A i ?m h)")
    note fr = new_nothrow_frame [OF n]
    from Cons.prems(1) False n obtain b where r: "r = Some b"
      by (cases r) auto
    let ?c = "\<lparr>path_len = ?m, path_pts = Some b\<rparr>"
    let ?data = "map to_cpt64 (take (nat (sint ?m)) sp)"
    define h2 where "h2 = set_pts A i (Some b) (h1\<lparr>pt_arrays := (pt_arrays h1)(b \<mapsto> ?data)\<rparr>)"
    from Cons.prems(1) False n r have run: "fromPaths64_loop A (Suc i) rest h2 = (True, h')"
      by (simp add: h2_def)
    have arr: "path_arrays h2 A = Some (cells[i := ?c])"
      using Cons.prems(2) i fr by (simp add: h2_def set_pts_def)
    have "Suc i + length rest \<le> length (cells[i := ?c])" using Cons.prems(3) by simp
    from Cons.IH [OF run arr this] obtain cs where cs:
      "length cs = length rest"
      "path_arrays h' A = Some (take (Suc i) (cells[i := ?c]) @ cs @ drop (Suc i + length rest) (cells[i := ?c]))"
      "list_all2 (stored h') cs rest" "distinct (bufs cs)"
      "set (bufs cs) \<inter> dom (pt_arrays h2) = {}"
      "dom (pt_arrays h') = dom (pt_arrays h2) \<union> set (bufs cs)"
      by blast
    from new_nothrow_fresh n r have "is_free h b" by fastforce
    then have fresh: "b \<notin> dom (pt_arrays h)" by (auto simp: is_free_def)
    have pt2: "pt_arrays h2 b = Some ?data" by (simp add: h2_def)
    have dom2: "dom (pt_arrays h2) = insert b (dom (pt_arrays h))" using fr by (simp add: h2_def)
    from fromPaths64_loop_frame [OF run] have "pt_arrays h2 \<subseteq>\<^sub>m pt_arrays h'" by simp
    with pt2 have "pt_arrays h' b = Some ?data" by (blast intro: map_le_Some)
    then have st: "stored h' ?c sp" using False by (simp add: stored_def)
    have tk: "take (Suc i) (cells[i := ?c]) = take i cells @ [?c]"
      using i by (simp add: take_Suc_conv_app_nth)
    have d1: "b \<notin> set (bufs cs)" using cs(5) dom2 by auto
    have d2: "set (bufs cs) \<inter> dom (pt_arrays h) = {}" using cs(5) dom2 by auto
    have d3: "dom (pt_arrays h') = dom (pt_arrays h) \<union> set (bufs (?c # cs))"
      using cs(6) dom2 by auto
    have d4: "distinct (bufs (?c # cs))" using d1 cs(4) by simp
    have d5: "set (bufs (?c # cs)) \<inter> dom (pt_arrays h) = {}" using d2 fresh by simp
    have "path_arrays h' A = Some (take i cells @ (?c # cs) @ drop (i + length (sp # rest)) cells)"
      using cs(2) tk by simp
    moreover have "list_all2 (stored h') (?c # cs) (sp # rest)" using cs(3) st by simp
    moreover have "length (?c # cs) = length (sp # rest)" using cs(1) by simp
    ultimately show ?thesis using d3 d4 d5 by blast
  qed
qed

lemma to_Point64_to_cpt64 [simp]: "to_Point64 (to_cpt64 p) = p"
  by (cases p) (simp add: to_Point64_def to_cpt64_def)

lemma to_cpt64_to_Point64 [simp]: "to_cpt64 (to_Point64 c) = c"
  by (simp add: to_Point64_def to_cpt64_def)



lemma stored_path_view:
  assumes "stored h c sp"
  shows "path_view h c =
     (word_of_nat (length sp), map to_cpt64 (take (nat (sint (word_of_nat (length sp) :: cint))) sp))"
proof (cases "0 < sint (word_of_nat (length sp) :: cint)")
  case True
  then have nz: "(word_of_nat (length sp) :: cint) \<noteq> 0" by auto
  with assms obtain b where b: "path_pts c = Some b"
    "pt_arrays h b = Some (map to_cpt64 (take (nat (sint (word_of_nat (length sp) :: cint))) sp))"
    by (auto simp: stored_def split: option.splits)
  have len: "path_len c = word_of_nat (length sp)" using assms by (simp add: stored_def)
  show ?thesis using True b len by (simp add: path_view_def)
next
  case False
  moreover have "path_len c = word_of_nat (length sp)" using assms by (simp add: stored_def)
  ultimately show ?thesis by (simp add: path_view_def)
qed

lemma free_paths_loop_bufs:
  "distinct (bufs cs) \<Longrightarrow> set (bufs cs) \<subseteq> dom (pt_arrays h) \<Longrightarrow>
   free_paths_loop cs h =
     Some (h\<lparr>pt_arrays := (\<lambda>a. if a \<in> set (bufs cs) then None else pt_arrays h a)\<rparr>)"
proof (induction cs arbitrary: h)
  case Nil
  then show ?case by simp
next
  case (Cons c cs)
  show ?case
  proof (cases "path_pts c")
    case None
    with Cons show ?thesis by simp
  next
    case (Some b)
    with Cons.prems have b: "b \<notin> set (bufs cs)" "distinct (bufs cs)" "pt_arrays h b \<noteq> None"
      "set (bufs cs) \<subseteq> dom (pt_arrays h)"
      by auto
    let ?h' = "h\<lparr>pt_arrays := (pt_arrays h)(b := None)\<rparr>"
    have del: "delete_pts b h = Some ?h'" using b(3) by (simp add: delete_pts_def)
    have "set (bufs cs) \<subseteq> dom (pt_arrays ?h')" using b(1,4) by auto
    from Cons.IH [OF b(2) this] del Some show ?thesis
      by (auto simp: fun_eq_iff)
  qed
qed

lemma fromPaths64_null: "fromPaths64 src None h = Value False h"
  by (simp add: fromPaths64_def)

lemma fromPaths64_dangling: "structs h d = None \<Longrightarrow> fromPaths64 src (Some d) h = Undefined"
  by (simp add: fromPaths64_def)


lemma fromPaths64_never_raises: "fromPaths64 src dst h \<noteq> Raise e h1"
  by (auto simp: fromPaths64_def split: option.splits prod.splits)


lemma fromPaths64_success:
  assumes "fromPaths64 src (Some d) h = Value True h1"
  obtains (no_array)
      "(word_of_nat (length src) :: cint) = 0"
      "h1 = h\<lparr>structs := (structs h)(d \<mapsto> empty_handle), new_plan := new_plan h1\<rparr>"
  | (array) A cs where
      "path_arrays h A = None"
      "structs h1 = (structs h)(d \<mapsto> \<lparr>paths_len = word_of_nat (length src), paths_items = Some A\<rparr>)"
      "path_arrays h1 = (path_arrays h)(A \<mapsto> cs)"
      "length cs = nat (sint (word_of_nat (length src) :: cint))"
      "list_all2 (stored h1) cs (take (nat (sint (word_of_nat (length src) :: cint))) src)"
      "distinct (bufs cs)"
      "set (bufs cs) \<inter> dom (pt_arrays h) = {}"
      "dom (pt_arrays h1) = dom (pt_arrays h) \<union> set (bufs cs)"
      "pt_arrays h \<subseteq>\<^sub>m pt_arrays h1"
      "junk h1 = junk h"
proof -
  obtain r h' where n: "new_nothrow h = (r, h')" by (cases "new_nothrow h")
  note fr = new_nothrow_frame [OF n]
  from assms have live: "structs h d \<noteq> None"
    by (auto simp: fromPaths64_def split: option.splits)
  show thesis
  proof (cases r)
    case None
    with assms n live have z: "(word_of_nat (length src) :: cint) = 0"
      and h1: "h1 = h'\<lparr>structs := (structs h')(d \<mapsto> \<lparr>paths_len = word_of_nat (length src), paths_items = None\<rparr>)\<rparr>"
      by (auto simp: fromPaths64_def split: option.splits)
    have "h1 = h\<lparr>structs := (structs h)(d \<mapsto> empty_handle), new_plan := new_plan h1\<rparr>"
      using h1 z fr by (simp add: empty_handle_def)
    with z show thesis by (rule no_array)
  next
    case (Some A)
    let ?n = "nat (sint (word_of_nat (length src) :: cint))"
    define h2 where "h2 = h'\<lparr>structs := (structs h')
               (d \<mapsto> \<lparr>paths_len = word_of_nat (length src), paths_items = Some A\<rparr>),
             path_arrays := (path_arrays h')(A \<mapsto> replicate ?n (junk h'))\<rparr>"
    from assms n live Some
    have run: "fromPaths64_loop A 0 (take ?n src) h2 = (True, h1)"
      by (auto simp: fromPaths64_def h2_def split: option.splits prod.splits)
    note lf = fromPaths64_loop_frame [OF run]
    from new_nothrow_fresh n Some have "is_free h A" by fastforce
    then have fresh: "path_arrays h A = None" by (simp add: is_free_def)
    have le: "?n \<le> length src" by (rule sint_of_nat_le)
    have arr: "path_arrays h2 A = Some (replicate ?n (junk h'))" by (simp add: h2_def)
    have "0 + length (take ?n src) \<le> length (replicate ?n (junk h'))" using le by simp
    from fromPaths64_loop_content [OF run arr this] obtain cs where cs:
      "length cs = length (take ?n src)"
      "path_arrays h1 A = Some cs"
      "list_all2 (stored h1) cs (take ?n src)" "distinct (bufs cs)"
      "set (bufs cs) \<inter> dom (pt_arrays h2) = {}"
      "dom (pt_arrays h1) = dom (pt_arrays h2) \<union> set (bufs cs)"
      using le by auto
    have pa: "path_arrays h1 = (path_arrays h)(A \<mapsto> cs)"
    proof
      fix a show "path_arrays h1 a = ((path_arrays h)(A \<mapsto> cs)) a"
        using lf cs(2) fr by (cases "a = A") (simp_all add: h2_def)
    qed
    have pt2: "pt_arrays h2 = pt_arrays h" using fr by (simp add: h2_def)
    show thesis
    proof (rule array [of A cs])
      show "path_arrays h A = None" by (rule fresh)
      show "structs h1 = (structs h)(d \<mapsto> \<lparr>paths_len = word_of_nat (length src), paths_items = Some A\<rparr>)"
        using lf fr by (simp add: h2_def)
      show "path_arrays h1 = (path_arrays h)(A \<mapsto> cs)" by (rule pa)
      show "length cs = ?n" using cs(1) le by simp
      show "list_all2 (stored h1) cs (take ?n src)" by (rule cs(3))
      show "distinct (bufs cs)" by (rule cs(4))
      show "set (bufs cs) \<inter> dom (pt_arrays h) = {}" using cs(5) pt2 by simp
      show "dom (pt_arrays h1) = dom (pt_arrays h) \<union> set (bufs cs)" using cs(6) pt2 by simp
      show "pt_arrays h \<subseteq>\<^sub>m pt_arrays h1" using lf pt2 by simp
      show "junk h1 = junk h" using lf fr by (simp add: h2_def)
    qed
  qed
qed


lemma stored_views:
  "list_all2 (stored h) cs srcs \<Longrightarrow>
   map (path_view h) cs =
     map (\<lambda>sp. (word_of_nat (length sp) :: cint,
                map to_cpt64 (take (nat (sint (word_of_nat (length sp) :: cint))) sp))) srcs"
  by (induction cs srcs rule: list_all2_induct) (simp_all add: stored_path_view)

lemma fromPaths64_view:
  assumes "fromPaths64 src (Some d) h = Value True h1"
  shows "pathset_view h1 d =
     Some (word_of_nat (length src),
           map (\<lambda>sp. (word_of_nat (length sp) :: cint,
                      map to_cpt64 (take (nat (sint (word_of_nat (length sp) :: cint))) sp)))
             (take (nat (sint (word_of_nat (length src) :: cint))) src))"
  using assms
proof (cases rule: fromPaths64_success)
  case no_array
  then have "structs h1 d = Some empty_handle"
    by (metis fun_upd_same heap.select_convs(1) heap.surjective heap.update_convs(1) heap.update_convs(4))
  then show ?thesis using no_array(1)
    by (simp add: pathset_view_def empty_handle_def)
next
  case (array A cs)
  from stored_views [OF array(5)] array(2,3,4) show ?thesis
    by (simp add: pathset_view_def)
qed

lemma fromPaths64_then_free:
  assumes "fromPaths64 src (Some d) h = Value True h1"
  shows "clipper2c_free_paths (Some d) h1 =
     Value () (h\<lparr>structs := (structs h)(d \<mapsto> empty_handle), new_plan := new_plan h1\<rparr>)"
  using assms
proof (cases rule: fromPaths64_success)
  case no_array
  then have "structs h1 d = Some empty_handle"
    by (metis fun_upd_same heap.select_convs(1) heap.surjective heap.update_convs(1) heap.update_convs(4))
  then have "clipper2c_free_paths (Some d) h1 = Value () h1"
    by (simp add: clipper2c_free_paths_def empty_handle_def)
  with no_array(2) show ?thesis by simp
next
  case (array A cs)
  have sub: "set (bufs cs) \<subseteq> dom (pt_arrays h1)" using array(8) by simp
  note fl = free_paths_loop_bufs [OF array(6) sub]
  have pt: "(\<lambda>a. if a \<in> set (bufs cs) then None else pt_arrays h1 a) = pt_arrays h"
  proof
    fix a
    show "(if a \<in> set (bufs cs) then None else pt_arrays h1 a) = pt_arrays h a"
    proof (cases "a \<in> set (bufs cs)")
      case True
      with array(7) have "a \<notin> dom (pt_arrays h)" by blast
      then have "pt_arrays h a = None" by (simp add: domIff)
      with True show ?thesis by simp
    next
      case False
      show ?thesis
      proof (cases "pt_arrays h a")
        case None
        with False array(8) have "a \<notin> dom (pt_arrays h1)" by auto
        with None False show ?thesis by auto
      next
        case (Some v)
        with array(9) have "pt_arrays h1 a = Some v" by (blast intro: map_le_Some)
        with Some False show ?thesis by simp
      qed
    qed
  qed
  have pa: "(path_arrays h1)(A := None) = path_arrays h"
    using array(1,3) by (auto simp: fun_eq_iff)
  have st: "(structs h1)(d \<mapsto> \<lparr>paths_len = 0, paths_items = None\<rparr>) = (structs h)(d \<mapsto> empty_handle)"
    using array(2) by (simp add: empty_handle_def)
  have "clipper2c_free_paths (Some d) h1 =
      Value () (h1\<lparr>pt_arrays := pt_arrays h, path_arrays := path_arrays h,
                   structs := (structs h)(d \<mapsto> empty_handle)\<rparr>)"
    using array(2,3,4) fl pt pa st by (simp add: clipper2c_free_paths_def)
  moreover have "h1\<lparr>pt_arrays := pt_arrays h, path_arrays := path_arrays h,
                   structs := (structs h)(d \<mapsto> empty_handle)\<rparr> =
      h\<lparr>structs := (structs h)(d \<mapsto> empty_handle), new_plan := new_plan h1\<rparr>"
    using array(10) by (intro heap.equality) simp_all
  ultimately show ?thesis by simp
qed

section \<open>The import reads and nothing else\<close>

lemma toPaths64_cases: "toPaths64 p h = Undefined \<or> (\<exists>ps. toPaths64 p h = Value ps h)"
  by (auto simp: toPaths64_def split: option.splits)

lemma toPaths64_pure: "toPaths64 p h = Value ps h' \<Longrightarrow> h' = h"
  using toPaths64_cases [of p h] by auto

lemma toPaths64_never_raises: "toPaths64 p h \<noteq> Raise e h'"
  using toPaths64_cases [of p h] by auto

section \<open>Rectangular clip\<close>

text \<open>
  Claim C7. For every quadruple \<open>(left, top, right, bottom)\<close>, ordered or not,
  \<open>clipper2c_rectclip64\<close> hands the engine the rectangle with exactly these four
  coordinates and the imported paths. No case of the result depends on how the
  coordinates are ordered: status 1 when the engine throws, else the export of what
  the engine returned, with status 0, or 2 when the export fails.
\<close>

theorem rectclip64_passes_rectangle:
  "clipper2c_rectclip64 eng left top' right bottom in_paths out_paths h =
     (case toPaths64 in_paths h of
        Value inp h' \<Rightarrow>
          (case RectClip eng
                  \<lparr>rect_left = left, rect_top = top', rect_right = right, rect_bottom = bottom\<rparr> inp of
             Inl e \<Rightarrow> Value 1 h
           | Inr out \<Rightarrow>
               (case fromPaths64 out out_paths h of
                  Value ok h'' \<Rightarrow> Value (if ok then 0 else 2) h''
                | _ \<Rightarrow> Undefined))
      | _ \<Rightarrow> Undefined)"
proof (cases "toPaths64 in_paths h")
  case (Value inp h')
  then have h': "h' = h" by (rule toPaths64_pure)
  show ?thesis
  proof (cases "RectClip eng
      \<lparr>rect_left = left, rect_top = top', rect_right = right, rect_bottom = bottom\<rparr> inp")
    case (Inl e)
    with Value h' show ?thesis
      by (simp add: clipper2c_rectclip64_def cbind_def try_catch_all_def engine_call_def)
  next
    case (Inr out)
    show ?thesis
    proof (cases "fromPaths64 out out_paths h")
      case (Raise e h'')
      with fromPaths64_never_raises show ?thesis by blast
    qed (use Value h' Inr in
        \<open>simp_all add: clipper2c_rectclip64_def cbind_def try_catch_all_def engine_call_def ret_def\<close>)
  qed
next
  case (Raise e h')
  with toPaths64_never_raises show ?thesis by blast
next
  case Undefined
  then show ?thesis by (simp add: clipper2c_rectclip64_def cbind_def try_catch_all_def)
qed

text \<open>
  An inverted rectangle (\<open>left = 5 > right = 0\<close>, \<open>top = 5 > bottom = 0\<close>) on the
  sample store: the call succeeds and the result handle holds what the engine
  returned for it.
\<close>

theorem rectclip64_passes_rectangle_witness:
  "\<exists>h'. clipper2c_rectclip64 echo_engine 5 5 0 0 (Some 0) (Some 5) square_heap = Value 0 h' \<and>
        toPaths64 (Some 5) h' = Value [map to_Point64 square] h'"
  using rectclip64_passes_rectangle [of echo_engine 5 5 0 0 "Some 0" "Some 5" square_heap]
  by (simp add: toPaths64_def toPath64_def fromPaths64_def new_nothrow_def is_free_def set_len_def
      set_pts_def to_cpt64_def to_Point64_def square_heap_def square_def empty_handle_def
      echo_engine_def)

section \<open>A null output pointer\<close>

text \<open>
  Claim C9, as amended. Called with a null output pointer, \<open>clipper2c_offset64\<close> and
  \<open>clipper2c_rectclip64\<close> return status 2 and leave the store as it was whenever the
  import and the engine call complete; when the engine throws they return status 1,
  the store again untouched.
\<close>

theorem null_output_status:
  "(toPaths64 paths h = Value inp h \<longrightarrow>
    clipper2c_offset64 eng u paths delta jt et miter_limit arc_tolerance None h =
      (case InflatePaths eng inp delta (toJT u jt) (toET u et) miter_limit arc_tolerance of
         Inl e \<Rightarrow> Value 1 h
       | Inr out \<Rightarrow> Value 2 h)) \<and>
   (toPaths64 in_paths h = Value inp' h \<longrightarrow>
    clipper2c_rectclip64 eng left top' right bottom in_paths None h =
      (case RectClip eng
              \<lparr>rect_left = left, rect_top = top', rect_right = right, rect_bottom = bottom\<rparr> inp' of
         Inl e \<Rightarrow> Value 1 h
       | Inr out \<Rightarrow> Value 2 h))"
  by (auto simp: clipper2c_offset64_def clipper2c_rectclip64_def cbind_def try_catch_all_def
      engine_call_def ret_def fromPaths64_null split: sum.splits)

theorem null_output_status_witness:
  "toPaths64 (Some 0) square_heap = Value [map to_Point64 square] square_heap \<and>
   clipper2c_offset64 echo_engine sample_enumerators (Some 0) 0 0 0 0 0 None square_heap =
     Value 2 square_heap \<and>
   clipper2c_rectclip64 echo_engine 0 0 10 10 (Some 0) None square_heap = Value 2 square_heap"
proof -
  have i: "toPaths64 (Some 0) square_heap = Value [map to_Point64 square] square_heap"
    by (simp add: toPaths64_def toPath64_def square_heap_def square_def)
  note t = null_output_status [where paths = "Some 0" and in_paths = "Some 0" and h = square_heap
      and inp = "[map to_Point64 square]" and inp' = "[map to_Point64 square]"
      and eng = echo_engine and u = sample_enumerators and delta = 0 and jt = 0 and et = 0
      and miter_limit = 0 and arc_tolerance = 0 and left = 0 and top' = 0 and right = 10
      and bottom = 10]
  from t i show ?thesis by (simp add: echo_engine_def)
qed

text \<open>
  The claim as stated fails when the engine throws: the status is then 1, not 2.
\<close>

theorem null_output_engine_failure:
  "clipper2c_offset64 failing_engine sample_enumerators (Some 0) 0 0 0 0 0 None square_heap =
     Value 1 square_heap \<and>
   clipper2c_rectclip64 failing_engine 0 0 10 10 (Some 0) None square_heap = Value 1 square_heap"
  by (simp add: clipper2c_offset64_def clipper2c_rectclip64_def cbind_def try_catch_all_def
      engine_call_def toPaths64_def toPath64_def square_heap_def square_def failing_engine_def)

section \<open>Import\<close>

lemma readable_path_iff: "readable_path h c \<longleftrightarrow> toPath64 h c \<noteq> None"
  by (simp add: readable_path_def toPath64_def split: option.splits)

lemma readable_paths_iff: "list_all (readable_path h) cs \<longleftrightarrow> toPaths64_loop h cs \<noteq> None"
  by (induction cs) (auto simp: readable_path_iff split: option.splits)

lemma readable_pathset_iff:
  "readable_pathset h p \<longleftrightarrow> (\<exists>ps. toPaths64 (Some p) h = Value ps h)"
  by (auto simp: readable_pathset_def toPaths64_def readable_paths_iff split: option.splits)

lemma toPath64_null_pts: "path_pts c = None \<Longrightarrow> toPath64 h c = Some []"
  by (simp add: toPath64_def)

lemma toPaths64_loop_nth:
  "toPaths64_loop h cs = Some ps \<Longrightarrow>
   length ps = length cs \<and> (\<forall>i < length cs. toPath64 h (cs ! i) = Some (ps ! i))"
proof (induction cs arbitrary: ps)
  case Nil
  then show ?case by simp
next
  case (Cons c cs)
  then obtain q qs where q: "toPath64 h c = Some q" "toPaths64_loop h cs = Some qs" "ps = q # qs"
    by (auto split: option.splits)
  from Cons.IH [OF q(2)] q show ?case by (auto simp: nth_Cons split: nat.splits)
qed

text \<open>
  Claim C8, as amended. \<open>toPaths64\<close> returns for a null path-set pointer (the empty
  set) and, behind a non-null pointer, exactly for the readable path sets: a struct
  whose \<open>len\<close> is not positive, or whose path array is live with at least \<open>len\<close>
  entries, every positive-length entry having a null point buffer or a live one of
  at least that many points. Wherever it returns, a path with a null point buffer
  is imported as the empty path, whatever its length says; so neither a null
  path-set pointer nor a null point buffer is ever read through.
\<close>

theorem import_defined_on_readable:
  "toPaths64 None h = Value [] h \<and>
   readable_pathset h p = (\<exists>ps. toPaths64 (Some p) h = Value ps h) \<and>
   (path_pts c = None \<longrightarrow> readable_path h c \<and> toPath64 h c = Some []) \<and>
   (toPaths64 (Some p) h = Value ps h \<and> structs h p = Some s \<and> paths_items s = Some a \<and>
    path_arrays h a = Some cells \<and> i < nat (sint (paths_len s)) \<and> path_pts (cells ! i) = None \<longrightarrow>
    length ps = nat (sint (paths_len s)) \<and> ps ! i = [])"
proof -
  have n: "toPaths64 None h = Value [] h" by (simp add: toPaths64_def)
  have c: "readable_path h c \<and> toPath64 h c = Some []" if "path_pts c = None"
    using that by (simp add: readable_path_iff toPath64_null_pts)
  have e: "length ps = nat (sint (paths_len s)) \<and> ps ! i = []"
    if a: "toPaths64 (Some p) h = Value ps h \<and> structs h p = Some s \<and> paths_items s = Some a \<and>
      path_arrays h a = Some cells \<and> i < nat (sint (paths_len s)) \<and> path_pts (cells ! i) = None"
  proof -
    let ?n = "nat (sint (paths_len s))"
    from a have pos: "\<not> sint (paths_len s) \<le> 0" by auto
    with a have le: "?n \<le> length cells" and l: "toPaths64_loop h (take ?n cells) = Some ps"
      by (auto simp: toPaths64_def split: option.splits if_splits)
    from toPaths64_loop_nth [OF l] le a
    have "length ps = ?n" and "toPath64 h (take ?n cells ! i) = Some (ps ! i)" by auto
    moreover have "take ?n cells ! i = cells ! i" using a by simp
    ultimately show ?thesis using a by (simp add: toPath64_null_pts)
  qed
  from n c e readable_pathset_iff [of h p] show ?thesis by blast
qed

theorem import_defined_on_readable_witness:
  "readable_pathset null_pts_heap 0 \<and>
   path_pts \<lparr>path_len = 4, path_pts = None\<rparr> = None \<and>
   toPath64 null_pts_heap \<lparr>path_len = 4, path_pts = None\<rparr> = Some [] \<and>
   toPaths64 (Some 0) null_pts_heap = Value [[]] null_pts_heap \<and>
   structs null_pts_heap 0 = Some \<lparr>paths_len = 1, paths_items = Some 1\<rparr> \<and>
   path_arrays null_pts_heap 1 = Some [\<lparr>path_len = 4, path_pts = None\<rparr>] \<and>
   [[]] ! 0 = ([] :: Path64)"
proof -
  have r: "toPaths64 (Some 0) null_pts_heap = Value [[]] null_pts_heap"
    by (simp add: toPaths64_def toPath64_def null_pts_heap_def square_heap_def)
  have s: "structs null_pts_heap 0 = Some \<lparr>paths_len = 1, paths_items = Some 1\<rparr>"
    by (simp add: null_pts_heap_def square_heap_def)
  have a: "path_arrays null_pts_heap 1 = Some [\<lparr>path_len = 4, path_pts = None\<rparr>]"
    by (simp add: null_pts_heap_def square_heap_def)
  note t = import_defined_on_readable [where h = null_pts_heap and p = 0 and ps = "[[]]"
      and c = "\<lparr>path_len = 4, path_pts = None\<rparr>" and s = "\<lparr>paths_len = 1, paths_items = Some 1\<rparr>"
      and a = 1 and cells = "[\<lparr>path_len = 4, path_pts = None\<rparr>]" and i = 0]
  from t r have "readable_pathset null_pts_heap 0" by blast
  moreover from t have "toPath64 null_pts_heap \<lparr>path_len = 4, path_pts = None\<rparr> = Some []" by simp
  moreover from t r s a have "[[]] ! 0 = ([] :: Path64)" by simp
  ultimately show ?thesis using r s a by simp
qed

text \<open>
  The claim as stated fails on a handle that announces one path and has a null path
  array: the loop reads \<open>cp->items[0]\<close> through the null pointer.
\<close>

theorem import_null_items_undefined:
  "structs null_items_heap 0 = Some \<lparr>paths_len = 1, paths_items = None\<rparr> \<and>
   toPaths64 (Some 0) null_items_heap = Undefined"
  by (simp add: toPaths64_def null_items_heap_def square_heap_def)

section \<open>Round trip\<close>

lemma sint_of_nat_small: "n < 2 ^ 31 \<Longrightarrow> nat (sint (word_of_nat n :: cint)) = n"
proof -
  assume a: "n < 2 ^ 31"
  have "sint (word_of_nat n :: cint) = (int n + 2 ^ 31) mod 2 ^ 32 - 2 ^ 31"
    using int_word_sint [where 'a = 32, of "int n"] by simp
  moreover have "(int n + 2 ^ 31) mod 2 ^ 32 = int n + 2 ^ 31"
    using a by (simp add: mod_pos_pos_trivial)
  ultimately show ?thesis by simp
qed

lemma nat_sint_small: "nat (sint (w :: cint)) < 2 ^ 31"
proof -
  have "sint w < 2 ^ 31" using sint_lt [of w] by simp
  then show ?thesis by simp
qed


lemma valid_path_import:
  assumes "valid_path h c"
  shows "\<exists>sp. toPath64 h c = Some sp \<and> length sp < 2 ^ 31 \<and>
              path_view h c = (word_of_nat (length sp), map to_cpt64 sp)"
proof (cases "0 < sint (path_len c)")
  case True
  with assms obtain b buf where b: "path_pts c = Some b" "pt_arrays h b = Some buf"
    "length buf = nat (sint (path_len c))"
    by (auto simp: valid_path_def split: option.splits)
  have "toPath64 h c = Some (map to_Point64 buf)" using True b by (simp add: toPath64_def)
  moreover have "length (map to_Point64 buf) < 2 ^ 31" using b(3) nat_sint_small by simp
  moreover have "path_view h c = (word_of_nat (length (map to_Point64 buf)), map to_cpt64 (map to_Point64 buf))"
    using True b by (simp add: path_view_def of_nat_sint comp_def)
  ultimately show ?thesis by blast
next
  case False
  with assms have "sint (path_len c) = 0" by (simp add: valid_path_def)
  then have "path_len c = 0" by (simp add: signed_eq_0_iff)
  then show ?thesis by (simp add: toPath64_def path_view_def)
qed

lemma valid_paths_import:
  "list_all (valid_path h) cs \<Longrightarrow>
   \<exists>ps. toPaths64_loop h cs = Some ps \<and> length ps = length cs \<and>
        list_all (\<lambda>sp. length sp < 2 ^ 31) ps \<and>
        map (path_view h) cs = map (\<lambda>sp. (word_of_nat (length sp), map to_cpt64 sp)) ps"
proof (induction cs)
  case Nil
  then show ?case by simp
next
  case (Cons c cs)
  then obtain ps where ps: "toPaths64_loop h cs = Some ps" "length ps = length cs"
    "list_all (\<lambda>sp. length sp < 2 ^ 31) ps"
    "map (path_view h) cs = map (\<lambda>sp. (word_of_nat (length sp), map to_cpt64 sp)) ps"
    by auto
  from Cons.prems valid_path_import [of h c] obtain sp where sp: "toPath64 h c = Some sp"
    "length sp < 2 ^ 31" "path_view h c = (word_of_nat (length sp), map to_cpt64 sp)"
    by auto
  show ?case
    apply (rule exI [of _ "sp # ps"])
    using ps sp by simp
qed

lemma valid_pathset_import:
  assumes "valid_pathset h p"
  shows "\<exists>ps. toPaths64 (Some p) h = Value ps h \<and> int_sized ps \<and>
              pathset_view h p =
                Some (word_of_nat (length ps), map (\<lambda>sp. (word_of_nat (length sp), map to_cpt64 sp)) ps)"
proof -
  from assms obtain s where s: "structs h p = Some s" "0 \<le> sint (paths_len s)"
    by (auto simp: valid_pathset_def split: option.splits)
  show ?thesis
  proof (cases "0 < sint (paths_len s)")
    case True
    with assms s obtain a cells where a: "paths_items s = Some a" "path_arrays h a = Some cells"
      "length cells = nat (sint (paths_len s))" "list_all (valid_path h) cells"
      by (auto simp: valid_pathset_def split: option.splits)
    from valid_paths_import [OF a(4)] obtain ps where ps: "toPaths64_loop h cells = Some ps"
      "length ps = length cells" "list_all (\<lambda>sp. length sp < 2 ^ 31) ps"
      "map (path_view h) cells = map (\<lambda>sp. (word_of_nat (length sp), map to_cpt64 sp)) ps"
      by blast
    have "toPaths64 (Some p) h = Value ps h" using True s a ps by (simp add: toPaths64_def)
    moreover have "int_sized ps" using ps(2,3) a(3) nat_sint_small by (simp add: int_sized_def)
    moreover have "pathset_view h p =
        Some (word_of_nat (length ps), map (\<lambda>sp. (word_of_nat (length sp), map to_cpt64 sp)) ps)"
      using True s a ps by (simp add: pathset_view_def of_nat_sint)
    ultimately show ?thesis by blast
  next
    case False
    with s have "sint (paths_len s) = 0" by simp
    then have "paths_len s = 0" by (simp add: signed_eq_0_iff)
    with s show ?thesis by (simp add: toPaths64_def pathset_view_def int_sized_def)
  qed
qed

lemma exact_path_import:
  assumes "exact_path h c"
  shows "\<exists>sp. toPath64 h c = Some sp \<and> length sp < 2 ^ 31 \<and>
              snd (path_view h c) = map to_cpt64 sp"
proof (cases "0 < sint (path_len c)")
  case True
  with assms obtain b buf where b: "path_pts c = Some b" "pt_arrays h b = Some buf"
    "length buf = nat (sint (path_len c))"
    by (auto simp: exact_path_def split: option.splits)
  have "toPath64 h c = Some (map to_Point64 buf)" using True b by (simp add: toPath64_def)
  moreover have "length (map to_Point64 buf) < 2 ^ 31" using b(3) nat_sint_small by simp
  moreover have "snd (path_view h c) = map to_cpt64 (map to_Point64 buf)"
    using True b by (simp add: path_view_def comp_def)
  ultimately show ?thesis by blast
next
  case False
  then show ?thesis by (simp add: toPath64_def path_view_def)
qed

lemma exact_paths_import:
  "list_all (exact_path h) cs \<Longrightarrow>
   \<exists>ps. toPaths64_loop h cs = Some ps \<and> length ps = length cs \<and>
        list_all (\<lambda>sp. length sp < 2 ^ 31) ps \<and>
        map (\<lambda>c. snd (path_view h c)) cs = map (map to_cpt64) ps"
proof (induction cs)
  case Nil
  then show ?case by simp
next
  case (Cons c cs)
  then obtain ps where ps: "toPaths64_loop h cs = Some ps" "length ps = length cs"
    "list_all (\<lambda>sp. length sp < 2 ^ 31) ps"
    "map (\<lambda>c. snd (path_view h c)) cs = map (map to_cpt64) ps"
    by auto
  from Cons.prems exact_path_import [of h c] obtain sp where sp: "toPath64 h c = Some sp"
    "length sp < 2 ^ 31" "snd (path_view h c) = map to_cpt64 sp"
    by auto
  show ?case
    apply (rule exI [of _ "sp # ps"])
    using ps sp by simp
qed

lemma exact_pathset_import:
  assumes "exact_pathset h p"
  shows "\<exists>ps. toPaths64 (Some p) h = Value ps h \<and> int_sized ps \<and>
              pathset_points h p = Some (map (map to_cpt64) ps)"
proof -
  from assms obtain s where s: "structs h p = Some s"
    by (auto simp: exact_pathset_def split: option.splits)
  show ?thesis
  proof (cases "0 < sint (paths_len s)")
    case True
    with assms s obtain a cells where a: "paths_items s = Some a" "path_arrays h a = Some cells"
      "length cells = nat (sint (paths_len s))" "list_all (exact_path h) cells"
      by (auto simp: exact_pathset_def split: option.splits)
    from exact_paths_import [OF a(4)] obtain ps where ps: "toPaths64_loop h cells = Some ps"
      "length ps = length cells" "list_all (\<lambda>sp. length sp < 2 ^ 31) ps"
      "map (\<lambda>c. snd (path_view h c)) cells = map (map to_cpt64) ps"
      by blast
    have "toPaths64 (Some p) h = Value ps h" using True s a ps by (simp add: toPaths64_def)
    moreover have "int_sized ps" using ps(2,3) a(3) nat_sint_small by (simp add: int_sized_def)
    moreover have "pathset_points h p = Some (map (map to_cpt64) ps)"
      using True s a ps by (simp add: pathset_points_def pathset_view_def comp_def)
    ultimately show ?thesis by blast
  next
    case False
    with s show ?thesis
      by (simp add: toPaths64_def pathset_points_def pathset_view_def int_sized_def)
  qed
qed

text \<open>
  Claim C3. A wire path set whose positive lengths come with buffers of exactly that
  many entries is imported, and every successful export of what was imported, into
  any handle of any store, holds the points of the original: as many paths, each of
  as many points, with the same coordinates in the same order. When no length of the
  original is negative (a valid path set), the \<open>len\<close> fields are the original's too.
\<close>

theorem export_import_roundtrip:
  assumes "exact_pathset h p"
  shows "\<exists>ps. toPaths64 (Some p) h = Value ps h \<and>
              (\<forall>d g g'. fromPaths64 ps (Some d) g = Value True g' \<longrightarrow>
                         pathset_points g' d = pathset_points h p \<and>
                         (valid_pathset h p \<longrightarrow> pathset_view g' d = pathset_view h p))"
proof -
  from exact_pathset_import [OF assms] obtain ps where ps: "toPaths64 (Some p) h = Value ps h"
    "int_sized ps" "pathset_points h p = Some (map (map to_cpt64) ps)"
    by blast
  have "pathset_points g' d = pathset_points h p \<and>
      (valid_pathset h p \<longrightarrow> pathset_view g' d = pathset_view h p)"
    if x: "fromPaths64 ps (Some d) g = Value True g'" for d g g'
  proof -
    have m: "map (\<lambda>sp. (word_of_nat (length sp) :: cint,
                    map to_cpt64 (take (nat (sint (word_of_nat (length sp) :: cint))) sp))) ps =
          map (\<lambda>sp. (word_of_nat (length sp), map to_cpt64 sp)) ps"
      using ps(2) by (simp add: int_sized_def list_all_iff sint_of_nat_small)
    have t: "take (nat (sint (word_of_nat (length ps) :: cint))) ps = ps"
      using ps(2) by (simp add: int_sized_def sint_of_nat_small)
    from fromPaths64_view [OF x] m t
    have v: "pathset_view g' d =
        Some (word_of_nat (length ps), map (\<lambda>sp. (word_of_nat (length sp), map to_cpt64 sp)) ps)"
      by simp
    then have "pathset_points g' d = Some (map (map to_cpt64) ps)"
      by (simp add: pathset_points_def comp_def)
    with ps(3) have pts: "pathset_points g' d = pathset_points h p" by simp
    have "pathset_view g' d = pathset_view h p" if "valid_pathset h p"
    proof -
      from valid_pathset_import [OF that] ps(1) v show ?thesis by auto
    qed
    with pts show ?thesis by blast
  qed
  with ps(1) show ?thesis by blast
qed

theorem export_import_roundtrip_witness:
  "exact_pathset square_heap 0 \<and> valid_pathset square_heap 0 \<and>
   toPaths64 (Some 0) square_heap = Value [map to_Point64 square] square_heap \<and>
   pathset_view square_heap 0 = Some (1, [(4, square)]) \<and>
   (\<exists>g'. fromPaths64 [map to_Point64 square] (Some 5) square_heap = Value True g' \<and>
         pathset_points g' 5 = Some [square] \<and>
         pathset_view g' 5 = Some (1, [(4, square)])) \<and>
   exact_pathset negative_len_heap 0 \<and> \<not> valid_pathset negative_len_heap 0 \<and>
   toPaths64 (Some 0) negative_len_heap = Value [[]] negative_len_heap \<and>
   pathset_view negative_len_heap 0 = Some (1, [(- 1, [])]) \<and>
   (\<exists>g'. fromPaths64 [[]] (Some 5) negative_len_heap = Value True g' \<and>
         pathset_points g' 5 = Some [[]] \<and>
         pathset_view g' 5 = Some (1, [(0, [])]))"
proof -
  have x: "exact_pathset square_heap 0"
    by (simp add: exact_pathset_def exact_path_def square_heap_def square_def)
  have v: "valid_pathset square_heap 0"
    by (simp add: valid_pathset_def valid_path_def square_heap_def square_def)
  have i: "toPaths64 (Some 0) square_heap = Value [map to_Point64 square] square_heap"
    by (simp add: toPaths64_def toPath64_def square_heap_def square_def)
  have w: "pathset_view square_heap 0 = Some (1, [(4, square)])"
    by (simp add: pathset_view_def path_view_def square_heap_def square_def)
  obtain g' where e: "fromPaths64 [map to_Point64 square] (Some 5) square_heap = Value True g'"
    by (simp add: fromPaths64_def new_nothrow_def is_free_def set_len_def set_pts_def
        square_heap_def square_def empty_handle_def)
  from export_import_roundtrip [OF x] i e v
  have "pathset_points g' 5 = pathset_points square_heap 0 \<and>
      pathset_view g' 5 = pathset_view square_heap 0"
    by auto
  with w have a: "pathset_points g' 5 = Some [square] \<and> pathset_view g' 5 = Some (1, [(4, square)])"
    by (simp add: pathset_points_def)
  have nx: "exact_pathset negative_len_heap 0"
    by (simp add: exact_pathset_def exact_path_def negative_len_heap_def square_heap_def)
  have nv: "\<not> valid_pathset negative_len_heap 0"
    by (simp add: valid_pathset_def valid_path_def negative_len_heap_def square_heap_def)
  have ni: "toPaths64 (Some 0) negative_len_heap = Value [[]] negative_len_heap"
    by (simp add: toPaths64_def toPath64_def negative_len_heap_def square_heap_def)
  have nw: "pathset_view negative_len_heap 0 = Some (1, [(- 1, [])])"
    by (simp add: pathset_view_def path_view_def negative_len_heap_def square_heap_def)
  obtain g'' where ne: "fromPaths64 [[]] (Some 5) negative_len_heap = Value True g''"
    and nr: "pathset_view g'' 5 = Some (1, [(0, [])])"
    by (simp add: fromPaths64_def new_nothrow_def is_free_def set_len_def set_pts_def
        pathset_view_def path_view_def negative_len_heap_def square_heap_def empty_handle_def)
  from export_import_roundtrip [OF nx] ni ne
  have "pathset_points g'' 5 = pathset_points negative_len_heap 0" by auto
  with nw have np: "pathset_points g'' 5 = Some [[]]" by (simp add: pathset_points_def)
  from x v i w e a nx nv ni nw ne nr np show ?thesis by blast
qed

section \<open>Release\<close>

lemma free_paths_null_items:
  "structs h a = Some s \<Longrightarrow> paths_items s = None \<Longrightarrow> clipper2c_free_paths (Some a) h = Value () h"
  by (simp add: clipper2c_free_paths_def)

lemma free_paths_cases:
  assumes "clipper2c_free_paths p h = Value () h1"
  shows "(p = None \<and> h1 = h) \<or>
         (\<exists>a s. p = Some a \<and> structs h a = Some s \<and> paths_items s = None \<and> h1 = h) \<or>
         (\<exists>a s. p = Some a \<and> structs h a = Some s \<and> paths_items s \<noteq> None \<and>
                structs h1 a = Some empty_handle)"
  using assms
  by (auto simp: clipper2c_free_paths_def empty_handle_def split: option.splits if_splits)

lemma free_paths_never_raises: "clipper2c_free_paths p h \<noteq> Raise e h1"
  by (auto simp: clipper2c_free_paths_def split: option.splits if_splits)

lemma free_paths_again:
  assumes "clipper2c_free_paths p h = Value () h1"
  shows "clipper2c_free_paths p h1 = Value () h1"
  using free_paths_cases [OF assms] assms
  by (auto simp: free_paths_null_items empty_handle_def clipper2c_free_paths_def)

lemma free_paths_twice:
  "cbind (clipper2c_free_paths p) (\<lambda>_. clipper2c_free_paths p) = clipper2c_free_paths p"
proof
  fix h
  show "cbind (clipper2c_free_paths p) (\<lambda>_. clipper2c_free_paths p) h = clipper2c_free_paths p h"
  proof (cases "clipper2c_free_paths p h")
    case (Value u h1)
    then show ?thesis using free_paths_again [of p h h1] by (simp add: cbind_def)
  qed (simp_all add: cbind_def)
qed

text \<open>
  Claim C4, as amended. Release through a null pointer, or of a handle whose path
  array is null (the empty state among them), changes nothing. Release of a handle
  with \<open>len = 0\<close> and a live path array is not a no-op: it releases the array and
  resets the handle. Release of a handle a successful export has filled returns the
  store as it was before the export, but for the allocator's plan and the handle,
  which is in the empty state: every point buffer and the path array are released.
\<close>

theorem release_after_export:
  "clipper2c_free_paths None h = Value () h \<and>
   (structs h a = Some s \<and> paths_items s = None \<longrightarrow> clipper2c_free_paths (Some a) h = Value () h) \<and>
   (structs h a = Some s \<and> paths_len s = 0 \<and> paths_items s = Some items \<and>
    path_arrays h items = Some cells \<longrightarrow>
    clipper2c_free_paths (Some a) h =
      Value () (h\<lparr>path_arrays := (path_arrays h)(items := None),
                  structs := (structs h)(a \<mapsto> empty_handle)\<rparr>)) \<and>
   (fromPaths64 src (Some d) h = Value True h' \<longrightarrow>
    clipper2c_free_paths (Some d) h' =
      Value () (h\<lparr>structs := (structs h)(d \<mapsto> empty_handle), new_plan := new_plan h'\<rparr>))"
proof -
  have n: "clipper2c_free_paths None h = Value () h" by (simp add: clipper2c_free_paths_def)
  have z: "clipper2c_free_paths (Some a) h =
      Value () (h\<lparr>path_arrays := (path_arrays h)(items := None),
                  structs := (structs h)(a \<mapsto> empty_handle)\<rparr>)"
    if "structs h a = Some s \<and> paths_len s = 0 \<and> paths_items s = Some items \<and>
      path_arrays h items = Some cells"
    using that by (simp add: clipper2c_free_paths_def empty_handle_def)
  from n z free_paths_null_items [of h a s] fromPaths64_then_free [of src d h h']
  show ?thesis by blast
qed

theorem release_after_export_witness:
  "structs square_heap 5 = Some empty_handle \<and> paths_items empty_handle = None \<and>
   clipper2c_free_paths (Some 5) square_heap = Value () square_heap \<and>
   structs zero_array_heap 5 = Some \<lparr>paths_len = 0, paths_items = Some 10\<rparr> \<and>
   path_arrays zero_array_heap 10 = Some [] \<and>
   clipper2c_free_paths (Some 5) zero_array_heap =
     Value () (zero_array_heap\<lparr>path_arrays := (path_arrays zero_array_heap)(10 := None),
                 structs := (structs zero_array_heap)(5 \<mapsto> empty_handle)\<rparr>) \<and>
   (\<exists>h1. fromPaths64 [map to_Point64 square] (Some 5) square_heap = Value True h1 \<and>
         pt_arrays h1 11 = Some square \<and>
         clipper2c_free_paths (Some 5) h1 =
           Value () (square_heap\<lparr>structs := (structs square_heap)(5 \<mapsto> empty_handle),
                       new_plan := [Some 12, Some 13]\<rparr>))"
proof -
  have s5: "structs square_heap 5 = Some empty_handle" by (simp add: square_heap_def)
  have e: "paths_items empty_handle = None" by (simp add: empty_handle_def)
  have z5: "structs zero_array_heap 5 = Some \<lparr>paths_len = 0, paths_items = Some 10\<rparr>"
    by (simp add: zero_array_heap_def)
  have z10: "path_arrays zero_array_heap 10 = Some []" by (simp add: zero_array_heap_def)
  obtain h1 where x: "fromPaths64 [map to_Point64 square] (Some 5) square_heap = Value True h1"
    and p: "pt_arrays h1 11 = Some square" and np: "new_plan h1 = [Some 12, Some 13]"
    by (simp add: fromPaths64_def new_nothrow_def is_free_def set_len_def set_pts_def
        square_heap_def square_def empty_handle_def to_cpt64_def to_Point64_def)
  from release_after_export [where h = square_heap and a = 5 and s = empty_handle] s5 e
  have a: "clipper2c_free_paths (Some 5) square_heap = Value () square_heap" by blast
  from release_after_export [where h = zero_array_heap and a = 5
      and s = "\<lparr>paths_len = 0, paths_items = Some 10\<rparr>" and items = 10 and cells = "[]"] z5 z10
  have b: "clipper2c_free_paths (Some 5) zero_array_heap =
     Value () (zero_array_heap\<lparr>path_arrays := (path_arrays zero_array_heap)(10 := None),
                 structs := (structs zero_array_heap)(5 \<mapsto> empty_handle)\<rparr>)"
    by simp
  from release_after_export [where h = square_heap and src = "[map to_Point64 square]" and d = 5
      and h' = h1] x np
  have c: "clipper2c_free_paths (Some 5) h1 =
           Value () (square_heap\<lparr>structs := (structs square_heap)(5 \<mapsto> empty_handle),
                       new_plan := [Some 12, Some 13]\<rparr>)"
    by simp
  from s5 e a z5 z10 b x p c show ?thesis by blast
qed

text \<open>
  The claim as stated fails on the handle an export of the empty solution leaves:
  its length is 0, its path array a live allocation of no cells. Release changes the
  handle (its \<open>items\<close> becomes null) and the store (the array is released).
\<close>

theorem release_len_zero_not_noop:
  "fromPaths64 [] (Some 5) square_heap = Value True zero_array_heap \<and>
   structs zero_array_heap 5 = Some \<lparr>paths_len = 0, paths_items = Some 10\<rparr> \<and>
   path_arrays zero_array_heap 10 = Some [] \<and>
   clipper2c_free_paths (Some 5) zero_array_heap = Value () released_heap \<and>
   structs released_heap 5 = Some \<lparr>paths_len = 0, paths_items = None\<rparr> \<and>
   path_arrays released_heap 10 = None \<and>
   released_heap \<noteq> zero_array_heap"
proof -
  have a: "fromPaths64 [] (Some 5) square_heap = Value True zero_array_heap"
    by (simp add: fromPaths64_def new_nothrow_def is_free_def zero_array_heap_def square_heap_def
        empty_handle_def)
  have b: "structs zero_array_heap 5 = Some \<lparr>paths_len = 0, paths_items = Some 10\<rparr>"
    "path_arrays zero_array_heap 10 = Some []"
    by (simp_all add: zero_array_heap_def)
  have c: "clipper2c_free_paths (Some 5) zero_array_heap = Value () released_heap"
    by (simp add: clipper2c_free_paths_def zero_array_heap_def released_heap_def square_heap_def
        empty_handle_def fun_upd_twist)
  have d: "structs released_heap 5 = Some \<lparr>paths_len = 0, paths_items = None\<rparr>"
    "path_arrays released_heap 10 = None"
    by (simp_all add: released_heap_def square_heap_def empty_handle_def)
  from b(2) d(2) have "released_heap \<noteq> zero_array_heap" by auto
  with a b c d show ?thesis by simp
qed

text \<open>
  Claim C10, as amended. Release is idempotent on every handle and store: a second
  call, and any number of further calls, through the same pointer does what the
  first did alone. After a call that returns, every later call returns at once with
  the store unchanged, so it frees nothing. The handle then has a null path array;
  its length is 0 if the path array was not null before the first call, and is the
  length it had otherwise.
\<close>

theorem release_idempotent:
  "cbind (clipper2c_free_paths p) (\<lambda>_. clipper2c_free_paths p) h = clipper2c_free_paths p h \<and>
   (((\<lambda>m. cbind m (\<lambda>_. clipper2c_free_paths p)) ^^ n) (clipper2c_free_paths p)) h =
     clipper2c_free_paths p h \<and>
   (clipper2c_free_paths p h = Value () h1 \<longrightarrow>
    clipper2c_free_paths p h1 = Value () h1 \<and>
    (\<forall>a s. p = Some a \<and> structs h a = Some s \<longrightarrow>
       structs h1 a = Some (if paths_items s = None then s else empty_handle) \<and>
       map_option paths_items (structs h1 a) = Some None))"
proof -
  have rep: "((\<lambda>m. cbind m (\<lambda>_. clipper2c_free_paths p)) ^^ n) (clipper2c_free_paths p) =
      clipper2c_free_paths p"
    by (induction n) (simp_all add: free_paths_twice)
  then have c2: "(((\<lambda>m. cbind m (\<lambda>_. clipper2c_free_paths p)) ^^ n) (clipper2c_free_paths p)) h =
     clipper2c_free_paths p h"
    by simp
  have c1: "cbind (clipper2c_free_paths p) (\<lambda>_. clipper2c_free_paths p) h = clipper2c_free_paths p h"
    by (simp add: free_paths_twice)
  have c3: "clipper2c_free_paths p h1 = Value () h1 \<and>
    (\<forall>a s. p = Some a \<and> structs h a = Some s \<longrightarrow>
       structs h1 a = Some (if paths_items s = None then s else empty_handle) \<and>
       map_option paths_items (structs h1 a) = Some None)"
    if f: "clipper2c_free_paths p h = Value () h1"
  proof -
    have "structs h1 a = Some (if paths_items s = None then s else empty_handle) \<and>
       map_option paths_items (structs h1 a) = Some None"
      if "p = Some a \<and> structs h a = Some s" for a s
      using free_paths_cases [OF f] that by (auto simp: empty_handle_def)
    with free_paths_again [OF f] show ?thesis by blast
  qed
  from c1 c2 c3 show ?thesis by blast
qed

theorem release_idempotent_witness:
  "(\<exists>h1. fromPaths64 [map to_Point64 square] (Some 5) square_heap = Value True h1 \<and>
     (\<exists>h2. clipper2c_free_paths (Some 5) h1 = Value () h2 \<and>
           clipper2c_free_paths (Some 5) h2 = Value () h2 \<and>
           structs h2 5 = Some empty_handle))"
proof -
  obtain h1 where x: "fromPaths64 [map to_Point64 square] (Some 5) square_heap = Value True h1"
    and s: "structs h1 5 = Some \<lparr>paths_len = 1, paths_items = Some 10\<rparr>"
    by (simp add: fromPaths64_def new_nothrow_def is_free_def set_len_def set_pts_def
        square_heap_def square_def empty_handle_def to_cpt64_def to_Point64_def)
  from fromPaths64_then_free [OF x] obtain h2 where f: "clipper2c_free_paths (Some 5) h1 = Value () h2"
    by blast
  from release_idempotent [where p = "Some 5" and h = h1 and ?h1.0 = h2] f s
  have "clipper2c_free_paths (Some 5) h2 = Value () h2 \<and> structs h2 5 = Some empty_handle"
    by simp
  with x f show ?thesis by blast
qed

text \<open>
  The claim as stated fails on the handle a failed export leaves: the length is
  written, the path array is null. Release returns at once and the handle keeps its
  length 1.
\<close>

theorem release_keeps_len_of_null_items:
  "fromPaths64 [map to_Point64 square] (Some 5) oom_heap = Value False failed_export_heap \<and>
   clipper2c_free_paths (Some 5) failed_export_heap = Value () failed_export_heap \<and>
   structs failed_export_heap 5 = Some \<lparr>paths_len = 1, paths_items = None\<rparr>"
  by (simp add: fromPaths64_def new_nothrow_def clipper2c_free_paths_def failed_export_heap_def
      oom_heap_def square_heap_def)

section \<open>The outputs of boolean combine\<close>















section \<open>Strategy selection\<close>

text \<open>
  Claim C1. For every requested clip type and fill rule and every triple of imported
  sets, the evaluation \<open>clipper2c_boolean64\<close> runs is the one the specification
  prescribes, with the engine's clip type and fill rule of the requested selectors:
  the full evaluation (each non-empty set registered, one \<open>Execute\<close> yielding the
  closed and the open solution) when there are open subjects or both closed subjects
  and clip paths; the reduced evaluation (\<open>BooleanOp\<close> over the closed subjects
  against an empty clip set, no open solution) when there are only closed subjects;
  and no engine call with both solutions empty otherwise, which is exactly when there
  are neither closed nor open subjects, whatever the clip set and whatever the
  engine.
\<close>

theorem boolean64_strategy:
  "toCT (cliptype_value c) = spec_cliptype c \<and> toFR (fillrule_value f) = spec_fillrule f \<and>
   boolean64_solve eng (cliptype_value c) (fillrule_value f) subj subjOp clip =
     spec_booleanCombine eng (spec_cliptype c) (spec_fillrule f) subj subjOp clip \<and>
   (spec_strategy subj subjOp clip = No_engine_call) = (subj = [] \<and> subjOp = []) \<and>
   (subj = [] \<and> subjOp = [] \<longrightarrow>
    boolean64_solve eng (cliptype_value c) (fillrule_value f) subj subjOp clip h = Value ([], []) h) \<and>
   (toPaths64 subjects h = Value subj h \<and> toPaths64 subjects_open h = Value subjOp h \<and>
    toPaths64 clips h = Value clip h \<longrightarrow>
    clipper2c_boolean64 eng (cliptype_value c) (fillrule_value f) subjects subjects_open clips
        out_closed out_open h =
      try_catch_all
        (cbind (spec_booleanCombine eng (spec_cliptype c) (spec_fillrule f) subj subjOp clip)
           (boolean64_export out_closed out_open)) 1 h)"
proof -
  have ct: "toCT (cliptype_value c) = spec_cliptype c"
    by (cases c) (simp_all add: toCT_def)
  have fr: "toFR (fillrule_value f) = spec_fillrule f"
    by (cases f) (simp_all add: toFR_def)
  have eq: "boolean64_solve eng (cliptype_value c) (fillrule_value f) subj subjOp clip =
     spec_booleanCombine eng (spec_cliptype c) (spec_fillrule f) subj subjOp clip"
    by (cases "subj = []"; cases "subjOp = []"; cases "clip = []")
      (simp_all add: boolean64_solve_def spec_booleanCombine_def spec_strategy_def
        register_if_any_def ct fr)
  have none: "(spec_strategy subj subjOp clip = No_engine_call) = (subj = [] \<and> subjOp = [])"
    by (auto simp: spec_strategy_def)
  have empty: "boolean64_solve eng (cliptype_value c) (fillrule_value f) subj subjOp clip h =
      Value ([], []) h"
    if "subj = [] \<and> subjOp = []"
    using that by (simp add: boolean64_solve_def ret_def)
  have whole: "clipper2c_boolean64 eng (cliptype_value c) (fillrule_value f) subjects subjects_open
        clips out_closed out_open h =
      try_catch_all
        (cbind (spec_booleanCombine eng (spec_cliptype c) (spec_fillrule f) subj subjOp clip)
           (boolean64_export out_closed out_open)) 1 h"
    if "toPaths64 subjects h = Value subj h \<and> toPaths64 subjects_open h = Value subjOp h \<and>
      toPaths64 clips h = Value clip h"
    using that eq by (simp add: clipper2c_boolean64_def cbind_def try_catch_all_def)
  from ct fr eq none empty whole show ?thesis by blast
qed

text \<open>
  On the sample store: Xor with the Negative rule over the square as closed subject
  and as clip path is a full evaluation, and the engine is asked for Xor and
  Negative; Union with the NonZero rule over the square alone is a reduced
  evaluation against no clip path; with no subjects the engine that throws from
  every operation is not called.
\<close>

theorem boolean64_strategy_witness:
  "toPaths64 (Some 0) square_heap = Value [map to_Point64 square] square_heap \<and>
   toPaths64 None square_heap = Value [] square_heap \<and>
   spec_strategy [map to_Point64 square] [] [map to_Point64 square] = Full_evaluation \<and>
   boolean64_solve tagging_engine (cliptype_value C_CLIP_XOR) (fillrule_value C_FILL_NEGATIVE)
       [map to_Point64 square] [] [map to_Point64 square] square_heap =
     Value ([[Point64 3 3], map to_Point64 square, map to_Point64 square], []) square_heap \<and>
   spec_strategy [map to_Point64 square] [] [] = Reduced_evaluation \<and>
   boolean64_solve tagging_engine (cliptype_value C_CLIP_UNION) (fillrule_value C_FILL_NONZERO)
       [map to_Point64 square] [] [] square_heap =
     Value ([[Point64 1 1], map to_Point64 square], []) square_heap \<and>
   boolean64_solve failing_engine (cliptype_value C_CLIP_UNION) (fillrule_value C_FILL_NONZERO)
       [] [] [map to_Point64 square] square_heap = Value ([], []) square_heap \<and>
   clipper2c_boolean64 tagging_engine (cliptype_value C_CLIP_XOR) (fillrule_value C_FILL_NEGATIVE)
       (Some 0) None (Some 0) None None square_heap = Value 0 square_heap"
proof -
  let ?sq = "map to_Point64 square"
  have i1: "toPaths64 (Some 0) square_heap = Value [?sq] square_heap"
    by (simp add: toPaths64_def toPath64_def square_heap_def square_def)
  have i2: "toPaths64 None square_heap = Value [] square_heap"
    by (simp add: toPaths64_def)
  have e: "([]::Paths64) = [] \<and> ([]::Paths64) = []" by simp
  note full = boolean64_strategy [where c = C_CLIP_XOR and f = C_FILL_NEGATIVE
      and subj = "[?sq]" and subjOp = "[]" and clip = "[?sq]" and subjects = "Some 0"
      and subjects_open = None and clips = "Some 0" and h = square_heap and eng = tagging_engine
      and out_closed = None and out_open = None]
  note reduced = boolean64_strategy [where c = C_CLIP_UNION and f = C_FILL_NONZERO
      and subj = "[?sq]" and subjOp = "[]" and clip = "[]" and eng = tagging_engine]
  note none = boolean64_strategy [where c = C_CLIP_UNION and f = C_FILL_NONZERO
      and subj = "[]" and subjOp = "[]" and clip = "[?sq]" and h = square_heap
      and eng = failing_engine]
  have s1: "spec_strategy [?sq] [] [?sq] = Full_evaluation" by (simp add: spec_strategy_def)
  have s2: "spec_strategy [?sq] [] [] = Reduced_evaluation" by (simp add: spec_strategy_def)
  have v1: "spec_booleanCombine tagging_engine (spec_cliptype C_CLIP_XOR) (spec_fillrule C_FILL_NEGATIVE)
      [?sq] [] [?sq] square_heap = Value ([[Point64 3 3], ?sq, ?sq], []) square_heap"
    by (simp add: spec_booleanCombine_def spec_strategy_def register_if_any_def tagging_engine_def
        cbind_def ret_def engine_call_def)
  have v2: "spec_booleanCombine tagging_engine (spec_cliptype C_CLIP_UNION) (spec_fillrule C_FILL_NONZERO)
      [?sq] [] [] square_heap = Value ([[Point64 1 1], ?sq], []) square_heap"
    by (simp add: spec_booleanCombine_def spec_strategy_def register_if_any_def tagging_engine_def
        cbind_def ret_def engine_call_def)
  from full v1 have a: "boolean64_solve tagging_engine (cliptype_value C_CLIP_XOR)
      (fillrule_value C_FILL_NEGATIVE) [?sq] [] [?sq] square_heap =
      Value ([[Point64 3 3], ?sq, ?sq], []) square_heap"
    by simp
  from reduced v2 have b: "boolean64_solve tagging_engine (cliptype_value C_CLIP_UNION)
      (fillrule_value C_FILL_NONZERO) [?sq] [] [] square_heap =
      Value ([[Point64 1 1], ?sq], []) square_heap"
    by simp
  from none e have c: "boolean64_solve failing_engine (cliptype_value C_CLIP_UNION)
      (fillrule_value C_FILL_NONZERO) [] [] [?sq] square_heap = Value ([], []) square_heap"
    by blast
  from full i1 i2 have "clipper2c_boolean64 tagging_engine (cliptype_value C_CLIP_XOR)
      (fillrule_value C_FILL_NEGATIVE) (Some 0) None (Some 0) None None square_heap =
      try_catch_all
        (cbind (spec_booleanCombine tagging_engine (spec_cliptype C_CLIP_XOR)
            (spec_fillrule C_FILL_NEGATIVE) [?sq] [] [?sq])
           (boolean64_export None None)) 1 square_heap"
    by blast
  also have "\<dots> = Value 0 square_heap"
    using v1 by (simp add: boolean64_export_def cbind_def ret_def try_catch_all_def)
  finally have d: "clipper2c_boolean64 tagging_engine (cliptype_value C_CLIP_XOR)
      (fillrule_value C_FILL_NEGATIVE) (Some 0) None (Some 0) None None square_heap =
      Value 0 square_heap" .
  from i1 i2 s1 s2 a b c d show ?thesis by blast
qed

section \<open>Memory for an export\<close>

lemma is_free_set_pts [simp]: "is_free (set_pts A i p h) a = is_free h a"
  by (cases "a = A") (auto simp: is_free_def)

lemma is_free_updates [simp]:
  "is_free (h\<lparr>new_plan := plan\<rparr>) b = is_free h b"
  "b \<noteq> a \<Longrightarrow> is_free (h\<lparr>pt_arrays := (pt_arrays h)(a \<mapsto> v)\<rparr>) b = is_free h b"
  by (simp_all add: is_free_def)

lemma path_arrays_set_None [simp]:
  "(path_arrays (set_len A i n h) b = None) = (path_arrays h b = None)"
  "(path_arrays (set_pts A i p h) b = None) = (path_arrays h b = None)"
  by (cases "b = A"; simp)+







section \<open>Status codes\<close>

















section \<open>Join styles\<close>

text \<open>
  What \<open>toJT\<close> makes of the three declared selectors: Square is the engine's Square
  whatever the value of \<open>C_JOIN_BEVEL\<close>, which the header does not declare; Round
  and Miter are the engine's Round and Miter unless that value is theirs, and
  then they are the engine's Bevel, whose case comes first.
\<close>

lemma toJT_declared_selectors:
  "toJT u (jointype_value C_JOIN_SQUARE) = JT_Square \<and>
   toJT u (jointype_value C_JOIN_ROUND) = (if C_JOIN_BEVEL u = 1 then JT_Bevel else JT_Round) \<and>
   toJT u (jointype_value C_JOIN_MITER) = (if C_JOIN_BEVEL u = 2 then JT_Bevel else JT_Miter)"
  by (simp add: toJT_def)

end
